theory Spec2Isabelle
  imports Complex_Main "HOL-Library.Extended_Nat"
begin

section \<open>Python values shared by the planners\<close>

text \<open>
  The exceptions the modelled code can raise.  A function that can raise returns
  \<open>py_error + 'a\<close>, with \<open>Inl\<close> for the exception.
\<close>

datatype py_error =
    ValueError
  | KeyError
  | IndexError
  | AttributeError
  | AssertionError
  | TypeError

text \<open>
  A Python \<open>set\<close> is a duplicate-free list, in the order in which Python iterates over
  it.  That order is not fixed by the language, so every statement about a set is made on
  \<open>set xs\<close> and holds for each order.  \<open>py_set xs\<close> is \<open>set(xs)\<close>, \<open>py_set_union s xs\<close>
  is \<open>s |= set(xs)\<close> and \<open>py_set_inter s t\<close> is \<open>s & t\<close>.
\<close>

definition py_set :: "'a list \<Rightarrow> 'a list" where
  "py_set xs = remdups xs"

definition py_set_union :: "'a list \<Rightarrow> 'a list \<Rightarrow> 'a list" where
  "py_set_union s xs = s @ filter (\<lambda>x. x \<notin> set s) (remdups xs)"

definition py_set_inter :: "'a list \<Rightarrow> 'a list \<Rightarrow> 'a list" where
  "py_set_inter s t = filter (\<lambda>x. x \<in> set t) s"

text \<open>
  \<open>min(xs, key=f)\<close> returns the first element whose key is minimal and raises
  \<open>ValueError\<close> on an empty sequence.  \<open>py_min_from\<close> is the scan with the best element
  so far.
\<close>

fun py_min_from :: "('a \<Rightarrow> 'k::linorder) \<Rightarrow> 'a \<Rightarrow> 'a list \<Rightarrow> 'a" where
  "py_min_from f best [] = best"
| "py_min_from f best (x # xs) = py_min_from f (if f x < f best then x else best) xs"

definition py_min :: "('a \<Rightarrow> 'k::linorder) \<Rightarrow> 'a list \<Rightarrow> py_error + 'a" where
  "py_min f xs = (case xs of [] \<Rightarrow> Inl ValueError | x # rest \<Rightarrow> Inr (py_min_from f x rest))"

section \<open>localrrt.py: the half-monitor\<close>

text \<open>
  The B\"uchi automaton is a class of the lomap library; the planners only call
  \<open>next_states(q, prop)\<close>, which is taken as a parameter.
\<close>

record ('q, 'p) buchi =
  next_states :: "'q \<Rightarrow> 'p \<Rightarrow> 'q list"

text \<open>
  The loop of \<open>monitor\<close> (localrrt.py, lines 70-73):
  \<^verbatim>\<open>for buchi_state in start: stop |= set(buchi.next_states(buchi_state, stop_prop))\<close>
\<close>

fun monitor_loop :: "('q, 'p) buchi \<Rightarrow> 'p \<Rightarrow> 'q list \<Rightarrow> 'q list \<Rightarrow> 'q list" where
  "monitor_loop buchi stop_prop [] stop = stop"
| "monitor_loop buchi stop_prop (buchi_state # rest) stop =
     monitor_loop buchi stop_prop rest
       (py_set_union stop (next_states buchi buchi_state stop_prop))"

text \<open>
  \<open>monitor(start, buchi, start_prop, stop_prop)\<close> (localrrt.py, lines 51-73).  The
  default \<open>stop_prop=None\<close> is one more value of the type of propositions.
\<close>

definition monitor :: "'q list \<Rightarrow> ('q, 'p) buchi \<Rightarrow> 'p \<Rightarrow> 'p \<Rightarrow> 'q list" where
  "monitor start buchi start_prop stop_prop =
     (if start_prop = stop_prop then py_set start
      else monitor_loop buchi stop_prop start [])"

text \<open>
  The B\"uchi sets that successive calls of \<open>LocalPlanner.update\<close> (lines 203-214)
  append to \<open>buchi_states\<close>: each call applies \<open>monitor\<close> to the last set, the proposition
  of the current configuration and the proposition of the next one.
\<close>

fun monitor_path :: "'q list \<Rightarrow> ('q, 'p) buchi \<Rightarrow> 'p \<Rightarrow> 'p list \<Rightarrow> 'q list" where
  "monitor_path B buchi prev_prop [] = B"
| "monitor_path B buchi prev_prop (prop # props) =
     monitor_path (monitor B buchi prev_prop prop) buchi prop props"

text \<open>
  \<open>min(xs, key=lambda x: m[x])\<close> for a dictionary \<open>m\<close>: the key of every element is looked
  up, so a missing entry raises \<open>KeyError\<close>.
\<close>

definition py_min_lookup :: "('a \<rightharpoonup> 'k::linorder) \<Rightarrow> 'a list \<Rightarrow> py_error + 'a" where
  "py_min_lookup m xs =
     (case xs of
        [] \<Rightarrow> Inl ValueError
      | x # rest \<Rightarrow>
          if list_all (\<lambda>y. m y \<noteq> None) xs
          then Inr (py_min_from (\<lambda>y. the (m y)) x rest)
          else Inl KeyError)"

section \<open>The collaborators of the planners\<close>

text \<open>
  Modelled from the spec: the transition system \<open>TS\<close> (module \<open>models.ts\<close>, not among the
  sources).  It is a directed graph whose vertices are configurations; each vertex stores
  its proposition set, and edges join vertices.  \<open>g_nodes\<close> is \<open>ts.g.node\<close> in insertion
  order, with the attribute \<open>prop\<close> of each vertex.
\<close>

record 'c ts =
  g_nodes :: "('c \<times> string set) list"
  g_edges :: "('c \<times> 'c) list"
  ts_init :: "'c list"

definition ts_states :: "'c ts \<Rightarrow> 'c list" where
  "ts_states t = map fst (g_nodes t)"

definition ts_has :: "'c ts \<Rightarrow> 'c \<Rightarrow> bool" where
  "ts_has t c = (c \<in> set (ts_states t))"

definition addState :: "'c ts \<Rightarrow> 'c \<Rightarrow> string set \<Rightarrow> bool \<Rightarrow> 'c ts" where
  "addState t key props is_init =
     (let t' = (if ts_has t key
                then t\<lparr>g_nodes := map (\<lambda>(c, p). if c = key then (c, props) else (c, p)) (g_nodes t)\<rparr>
                else t\<lparr>g_nodes := g_nodes t @ [(key, props)]\<rparr>)
      in if is_init then t'\<lparr>ts_init := py_set_union (ts_init t') [key]\<rparr> else t')"

fun addStates :: "'c ts \<Rightarrow> ('c \<times> string set) list \<Rightarrow> 'c ts" where
  "addStates t [] = t"
| "addStates t ((key, props) # rest) = addStates (addState t key props False) rest"

definition addTransitions :: "'c ts \<Rightarrow> ('c \<times> 'c) list \<Rightarrow> 'c ts" where
  "addTransitions t Delta = t\<lparr>g_edges := py_set_union (g_edges t) Delta\<rparr>"

text \<open>
  The robot (its class is not among the sources) is the record of the methods the
  planners call.  \<open>sample\<close> draws from a random generator whose state \<open>'g\<close> is threaded
  explicitly; the second argument of \<open>getSymbols\<close> is the flag \<open>local\<close>; the third
  argument of \<open>steer\<close> is the optional \<open>atol\<close>; \<open>cspace_dist\<close> is \<open>robot.cspace.dist\<close>.
\<close>

record ('c, 'o, 'g) robot =
  initConf :: 'c
  sample :: "'g \<Rightarrow> 'c \<times> 'g"
  steer :: "'c \<Rightarrow> 'c \<Rightarrow> real option \<Rightarrow> 'c"
  getSymbols :: "'c \<Rightarrow> bool \<Rightarrow> string set"
  isSimpleSegment :: "'c \<Rightarrow> 'c \<Rightarrow> bool"
  collision_free :: "'c list \<Rightarrow> 'o \<Rightarrow> bool"
  collision_free_segment :: "'c \<Rightarrow> 'c \<Rightarrow> 'o \<Rightarrow> bool"
  cspace_dist :: "'c \<Rightarrow> 'c \<Rightarrow> real"

text \<open>
  The incremental product automaton (module \<open>models.product\<close>, not among the sources),
  as the local planner reads it: \<open>proj_ts\<close> maps a TS state to its set of B\"uchi states,
  \<open>node_potential\<close> is the attribute \<open>potential\<close> of a product state in \<open>pa.g.node\<close>, and
  \<open>out_edges\<close> lists the successors of a product state in \<open>pa.g\<close>.
\<close>

record ('c, 'q) product =
  proj_ts :: "'c \<rightharpoonup> 'q list"
  node_potential :: "('c \<times> 'q) \<rightharpoonup> enat"
  out_edges :: "('c \<times> 'q) \<Rightarrow> ('c \<times> 'q) list"

text \<open>
  The same automaton as the global planner drives it, through the methods of the checker
  object; \<open>'pa\<close> is the checker's state and \<open>'e\<close> the type of product edges.
  \<open>edges_in_buchi\<close> is the condition asserted at line 193 of ltlrrg.py: every edge of the
  product projects to an edge of the B\"uchi automaton.
\<close>

record ('c, 'pa, 'e) checker =
  addInitialState :: "'pa \<Rightarrow> 'c \<Rightarrow> string set \<Rightarrow> 'pa"
  foundPolicy :: "'pa \<Rightarrow> bool"
  check :: "'pa \<Rightarrow> 'c ts \<Rightarrow> 'c \<Rightarrow> 'c \<Rightarrow> string set \<Rightarrow> bool \<Rightarrow> 'e list"
  update :: "'pa \<Rightarrow> 'e list \<Rightarrow> 'pa"
  edges_in_buchi :: "'pa \<Rightarrow> bool"

section \<open>localrrt.py: potentials and the local planner\<close>

text \<open>\<open>get_actual_potential(x, B, pa)\<close> (lines 41-49).\<close>

definition get_actual_potential :: "'c \<Rightarrow> 'q list \<Rightarrow> ('c, 'q) product \<Rightarrow> py_error + enat" where
  "get_actual_potential x B pa =
     (case proj_ts pa x of
        None \<Rightarrow> Inl KeyError
      | Some qs \<Rightarrow>
          let pa_states = map (Pair x) (py_set_inter qs B) in
          if pa_states = [] then Inr \<infinity>
          else
            (case py_min_lookup (node_potential pa) pa_states of
               Inl e \<Rightarrow> Inl e
             | Inr pa_state \<Rightarrow>
                 (case node_potential pa pa_state of
                    None \<Rightarrow> Inl KeyError
                  | Some p \<Rightarrow> Inr p)))"

text \<open>\<open>Request = namedtuple('Request', ('region', 'name', 'priority'))\<close> (line 81).\<close>

record 'r request =
  region :: 'r
  name :: string
  priority :: int

text \<open>
  The fields of \<open>LocalPlanner\<close> that the modelled methods read and write.  \<open>local_plan\<close> is
  \<open>None\<close> until a plan is generated; \<open>obstacles\<close> is only handed to the robot.
\<close>

record ('c, 'q, 'r, 'o) local_planner =
  local_plan :: "'c list option"
  tracking_req :: "'r request option"
  requests :: "'r request list"
  obstacles :: 'o
  buchi_states :: "'q list list"
  potential :: "enat list"
  global_target_state :: 'c

text \<open>
  \<open>local_plan_hit\<close> (lines 156-167).  \<open>not self.local_plan\<close> holds for \<open>None\<close> and for the
  empty list; \<open>self.tracking_req.name\<close> raises \<open>AttributeError\<close> on \<open>None\<close>.
\<close>

definition local_plan_hit ::
  "('c, 'o, 'g) robot \<Rightarrow> 'c ts \<Rightarrow> ('c, 'q, 'r, 'o) local_planner \<Rightarrow> py_error + bool" where
  "local_plan_hit rb t pl =
     (case local_plan pl of
        None \<Rightarrow> Inr False
      | Some [] \<Rightarrow> Inr False
      | Some (c # cs) \<Rightarrow>
          if \<not> ts_has t (last (c # cs)) then Inl AssertionError
          else
            (case tracking_req pl of
               None \<Rightarrow> Inl AttributeError
             | Some req \<Rightarrow> Inr (list_ex (\<lambda>conf. name req \<in> getSymbols rb conf True) (c # cs))))"

text \<open>
  \<open>check_local_plan\<close> (lines 169-201); the result carries the planner with the updated
  \<open>tracking_req\<close>.  The first branch (\<open>if requests:\<close>, line 181) returns, so below it
  \<open>requests\<close> is empty: the test \<open>self.tracking_req not in requests\<close> of line 188 is true
  for every request, and the inner \<open>if requests:\<close> of line 189 (switch target) is never
  taken.  A namedtuple of three fields is truthy, so \<open>self.tracking_req\<close> is true exactly
  when it is not \<open>None\<close>.
\<close>

definition check_local_plan ::
  "('c, 'o, 'g) robot \<Rightarrow> 'c ts \<Rightarrow> ('c, 'q, 'r, 'o) local_planner \<Rightarrow>
     py_error + (bool \<times> ('c, 'q, 'r, 'o) local_planner)" where
  "check_local_plan rb t pl =
     (case requests pl of
        r # rest \<Rightarrow>
          let highest_priority_req = py_min_from priority r rest;
              pl1 = (case tracking_req pl of
                       None \<Rightarrow> pl\<lparr>tracking_req := Some highest_priority_req\<rparr>
                     | Some tr \<Rightarrow>
                         if priority tr > priority highest_priority_req
                         then pl\<lparr>tracking_req := Some highest_priority_req\<rparr>
                         else pl)
          in (case local_plan_hit rb t pl1 of
                Inl e \<Rightarrow> Inl e
              | Inr b \<Rightarrow> Inr (b, pl1))
      | [] \<Rightarrow>
          let pl1 = (case tracking_req pl of
                       None \<Rightarrow> pl
                     | Some tr \<Rightarrow>
                         if tr \<notin> set (requests pl) then pl\<lparr>tracking_req := None\<rparr> else pl)
          in (case local_plan pl1 of
                None \<Rightarrow> Inr (False, pl1)
              | Some [] \<Rightarrow> Inr (False, pl1)
              | Some (c # cs) \<Rightarrow>
                  if \<not> ts_has t (last (c # cs)) then Inl AssertionError
                  else Inr (collision_free rb (c # cs) (obstacles pl1), pl1)))"

text \<open>
  \<open>min_potential_global_state\<close> (lines 216-230).  \<open>out_edges_iter(pa_states)\<close> yields the
  edges leaving the listed product states; \<open>zip(*...)\<close> of no edge is the empty list, whose
  unpacking into two names raises \<open>ValueError\<close>, and otherwise gives two tuples, the second
  being \<open>pa_next_states\<close>.  A tuple has no method \<open>remove\<close>: when both potentials are zero,
  line 225 raises \<open>AttributeError\<close>, before the second \<open>min\<close> and the assertion of line 228.
\<close>

definition min_potential_global_state ::
  "('c, 'q) product \<Rightarrow> ('c, 'q, 'r, 'o) local_planner \<Rightarrow> 'c \<Rightarrow> py_error + 'c" where
  "min_potential_global_state pa pl state =
     (case buchi_states pl of
        [] \<Rightarrow> Inl IndexError
      | b # bs \<Rightarrow>
          let pa_states = map (Pair state) (last (b # bs));
              out = concat (map (\<lambda>u. map (Pair u) (out_edges pa u)) pa_states)
          in if out = [] then Inl ValueError
             else
               let pa_next_states = map snd out in
               (case py_min_lookup (node_potential pa) pa_next_states of
                  Inl e \<Rightarrow> Inl e
                | Inr opt_pa_next_state \<Rightarrow>
                    (case potential pl of
                       [] \<Rightarrow> Inl IndexError
                     | p # ps \<Rightarrow>
                         if last (p # ps) = 0 \<and> node_potential pa opt_pa_next_state = Some 0
                         then Inl AttributeError
                         else Inr (fst opt_pa_next_state))))"

text \<open>
  The local tree of \<open>generate_local_plan\<close>: a node stores \<open>global_prop\<close>, \<open>buchi_states\<close>
  and \<open>hit\<close>.
\<close>

record 'q lts_data =
  global_prop :: "string set"
  lts_buchi_states :: "'q list"
  hit :: bool

record ('c, 'q) lts =
  lts_nodes :: "('c \<times> 'q lts_data) list"
  lts_edges :: "('c \<times> 'c) list"

definition lts_add_node :: "('c, 'q) lts \<Rightarrow> 'c \<Rightarrow> 'q lts_data \<Rightarrow> ('c, 'q) lts" where
  "lts_add_node l key d =
     (if key \<in> set (map fst (lts_nodes l))
      then l\<lparr>lts_nodes := map (\<lambda>(c, x). if c = key then (c, d) else (c, x)) (lts_nodes l)\<rparr>
      else l\<lparr>lts_nodes := lts_nodes l @ [(key, d)]\<rparr>)"

text \<open>
  One pass of the loop body of \<open>generate_local_plan\<close> after the sample is steered (lines
  322-347): label \<open>dest_state\<close>, run the half-monitor from the data of \<open>source_state\<close>, and
  insert the node and the edge only if the monitor's set is non-empty and the segment is
  collision free.  The result is the tree and the new value of \<open>dest_state\<close>.
\<close>

definition extend_lts ::
  "('c, 'o, 'g) robot \<Rightarrow> ('q, string set) buchi \<Rightarrow> ('c, 'q, 'r, 'o) local_planner \<Rightarrow>
     ('c, 'q) lts \<Rightarrow> 'c \<Rightarrow> 'c \<Rightarrow> py_error + (('c, 'q) lts \<times> 'c option)" where
  "extend_lts rb bu pl l source_state dest_state =
     (let dest_global_prop = getSymbols rb dest_state False;
          dest_local_prop = getSymbols rb dest_state True;
          keep = (\<lambda>l'. Inr (l', if dest_state \<in> set (map fst (lts_nodes l'))
                                 then Some dest_state else None))
      in if isSimpleSegment rb source_state dest_state
         then
           (case map_of (lts_nodes l) source_state of
              None \<Rightarrow> Inl KeyError
            | Some source_data \<Rightarrow>
                let B = monitor (lts_buchi_states source_data) bu
                          (global_prop source_data) dest_global_prop
                in if B \<noteq> [] \<and> collision_free_segment rb source_state dest_state (obstacles pl)
                   then
                     let h = (case tracking_req pl of
                                None \<Rightarrow> False
                              | Some target \<Rightarrow> name target \<in> dest_local_prop \<or> hit source_data);
                         l1 = lts_add_node l dest_state
                                \<lparr>global_prop = dest_global_prop, lts_buchi_states = B, hit = h\<rparr>
                     in keep (l1\<lparr>lts_edges := py_set_union (lts_edges l1)
                                                  [(source_state, dest_state)]\<rparr>)
                   else keep l)
         else keep l)"

section \<open>ltlrrg.py: the global planner\<close>

text \<open>
  The fields of \<open>RRGPlanner\<close>.  \<open>checker_state\<close> is the state of \<open>self.checker\<close>, \<open>eta\<close> the
  pair \<open>[eta[0], eta[1]]\<close>, and \<open>rng\<close> the state of the random generator behind
  \<open>robot.sample()\<close>.
\<close>

record ('c, 'pa, 'g) rrg_planner =
  maxIterations :: int
  iteration :: int
  ts :: "'c ts"
  checker_state :: 'pa
  eta :: "real \<times> real"
  rng :: 'g

text \<open>The constructor (lines 50-73): a TS with the initial configuration, \<open>eta = [0.5, 1.0]\<close>.\<close>

definition RRGPlanner_init ::
  "('c, 'o, 'g) robot \<Rightarrow> ('c, 'pa, 'e) checker \<Rightarrow> 'pa \<Rightarrow> 'g \<Rightarrow> int \<Rightarrow> ('c, 'pa, 'g) rrg_planner" where
  "RRGPlanner_init rb ck pa0 g0 iterations =
     (let symbols = getSymbols rb (initConf rb) False in
      \<lparr>maxIterations = iterations,
       iteration = 0,
       ts = addState \<lparr>g_nodes = [], g_edges = [], ts_init = []\<rparr> (initConf rb) symbols True,
       checker_state = addInitialState ck pa0 (initConf rb) symbols,
       eta = (1 / 2, 1),
       rng = g0\<rparr>)"

text \<open>\<open>nearest\<close> (lines 199-212), \<open>far\<close> (lines 214-234) and \<open>near\<close> (lines 236-244).\<close>

definition nearest :: "('c, 'o, 'g) robot \<Rightarrow> ('c, 'pa, 'g) rrg_planner \<Rightarrow> 'c \<Rightarrow> py_error + 'c" where
  "nearest rb pl p = py_min (\<lambda>x. cspace_dist rb p x) (ts_states (ts pl))"

definition far :: "('c, 'o, 'g) robot \<Rightarrow> ('c, 'pa, 'g) rrg_planner \<Rightarrow> 'c \<Rightarrow> 'c list" where
  "far rb pl p =
     (let ret = filter (\<lambda>v. cspace_dist rb v p < snd (eta pl)) (ts_states (ts pl)) in
      if list_ex (\<lambda>v. cspace_dist rb v p \<le> fst (eta pl)) ret then [] else ret)"

definition near :: "('c, 'o, 'g) robot \<Rightarrow> ('c, 'pa, 'g) rrg_planner \<Rightarrow> 'c \<Rightarrow> 'c list" where
  "near rb pl p =
     filter (\<lambda>v. 0 < cspace_dist rb v p \<and> cspace_dist rb v p < snd (eta pl)) (ts_states (ts pl))"

text \<open>
  The forward loop of \<open>iterate\<close> (lines 116-131) over the states of \<open>far(newConf)\<close>, with the
  update sets \<open>Q\<close> (a dictionary), \<open>Delta\<close> and \<open>E\<close>.
\<close>

fun forward_loop ::
  "('c, 'o, 'g) robot \<Rightarrow> ('c, 'pa, 'e) checker \<Rightarrow> ('c, 'pa, 'g) rrg_planner \<Rightarrow> 'c \<Rightarrow> string set \<Rightarrow>
     'c list \<Rightarrow> ('c \<times> string set) list \<times> ('c \<times> 'c) list \<times> 'e list \<Rightarrow>
     ('c \<times> string set) list \<times> ('c \<times> 'c) list \<times> 'e list" where
  "forward_loop rb ck pl newConf newProp [] acc = acc"
| "forward_loop rb ck pl newConf newProp (state # rest) (Q, Delta, E) =
     (if isSimpleSegment rb state newConf
      then
        (let Ep = check ck (checker_state pl) (ts pl) state newConf newProp True in
         if Ep \<noteq> []
         then forward_loop rb ck pl newConf newProp rest
                (if newConf \<in> set (map fst Q) then Q else Q @ [(newConf, newProp)],
                 py_set_union Delta [(state, newConf)],
                 py_set_union E Ep)
         else forward_loop rb ck pl newConf newProp rest (Q, Delta, E))
      else forward_loop rb ck pl newConf newProp rest (Q, Delta, E))"

text \<open>
  The backward loops (lines 154-170): for each newly added state, over the states of
  \<open>near(newState)\<close>.  \<open>self.ts.g.node[state]['prop']\<close> raises \<open>KeyError\<close> for a state the TS
  does not hold.
\<close>

fun backward_inner ::
  "('c, 'o, 'g) robot \<Rightarrow> ('c, 'pa, 'e) checker \<Rightarrow> ('c, 'pa, 'g) rrg_planner \<Rightarrow> 'c \<Rightarrow>
     'c list \<Rightarrow> ('c \<times> 'c) list \<times> 'e list \<Rightarrow> py_error + (('c \<times> 'c) list \<times> 'e list)" where
  "backward_inner rb ck pl newState [] acc = Inr acc"
| "backward_inner rb ck pl newState (state # rest) (Delta, E) =
     (let st = steer rb newState state (Some (1 / 10 ^ 8)) in
      if state = st \<and> isSimpleSegment rb newState state
      then
        (case map_of (g_nodes (ts pl)) state of
           None \<Rightarrow> Inl KeyError
         | Some props \<Rightarrow>
             let Ep = check ck (checker_state pl) (ts pl) newState state props False in
             if Ep \<noteq> []
             then backward_inner rb ck pl newState rest
                    (py_set_union Delta [(newState, state)], py_set_union E Ep)
             else backward_inner rb ck pl newState rest (Delta, E))
      else backward_inner rb ck pl newState rest (Delta, E))"

fun backward_loop ::
  "('c, 'o, 'g) robot \<Rightarrow> ('c, 'pa, 'e) checker \<Rightarrow> ('c, 'pa, 'g) rrg_planner \<Rightarrow>
     'c list \<Rightarrow> ('c \<times> 'c) list \<times> 'e list \<Rightarrow> py_error + (('c \<times> 'c) list \<times> 'e list)" where
  "backward_loop rb ck pl [] acc = Inr acc"
| "backward_loop rb ck pl (newState # rest) acc =
     (case backward_inner rb ck pl newState (near rb pl newState) acc of
        Inl e \<Rightarrow> Inl e
      | Inr acc' \<Rightarrow> backward_loop rb ck pl rest acc')"

text \<open>
  \<open>iterate\<close> (lines 82-197): the returned flag and the planner after the step, or the
  exception.  The assertion of line 193 is the last statement before the return.
\<close>

definition iterate ::
  "('c, 'o, 'g) robot \<Rightarrow> ('c, 'pa, 'e) checker \<Rightarrow> ('c, 'pa, 'g) rrg_planner \<Rightarrow>
     py_error + (bool \<times> ('c, 'pa, 'g) rrg_planner)" where
  "iterate rb ck pl =
     (if \<not> foundPolicy ck (checker_state pl)
      then
        (let (randomConf, g') = sample rb (rng pl) in
         case nearest rb pl randomConf of
           Inl e \<Rightarrow> Inl e
         | Inr nearestState \<Rightarrow>
             let newConf = steer rb nearestState randomConf None;
                 newProp = getSymbols rb newConf False;
                 (Q, Delta, E) = forward_loop rb ck pl newConf newProp (far rb pl newConf) ([], [], []);
                 pl1 = pl\<lparr>ts := addTransitions (addStates (ts pl) Q) Delta,
                          checker_state := update ck (checker_state pl) E,
                          rng := g'\<rparr>
             in (case backward_loop rb ck pl1 (map fst Q) ([], []) of
                   Inl e \<Rightarrow> Inl e
                 | Inr (Delta2, E2) \<Rightarrow>
                     let pl2 = pl1\<lparr>ts := addTransitions (ts pl1) Delta2,
                                   checker_state := update ck (checker_state pl1) E2\<rparr>
                     in if \<not> edges_in_buchi ck (checker_state pl2) then Inl AssertionError
                        else Inr (foundPolicy ck (checker_state pl2), pl2)))
      else Inr (True, pl))"

text \<open>
  \<open>solve\<close> (lines 75-80): \<open>for self.iteration in range(1, self.maxIterations+1)\<close>, leaving
  at the first iteration that returns true.
\<close>

fun solve_loop ::
  "('c, 'o, 'g) robot \<Rightarrow> ('c, 'pa, 'e) checker \<Rightarrow> int list \<Rightarrow> ('c, 'pa, 'g) rrg_planner \<Rightarrow>
     py_error + (bool \<times> ('c, 'pa, 'g) rrg_planner)" where
  "solve_loop rb ck [] pl = Inr (False, pl)"
| "solve_loop rb ck (i # rest) pl =
     (case iterate rb ck (pl\<lparr>iteration := i\<rparr>) of
        Inl e \<Rightarrow> Inl e
      | Inr (found, pl') \<Rightarrow> if found then Inr (True, pl') else solve_loop rb ck rest pl')"

definition solve ::
  "('c, 'o, 'g) robot \<Rightarrow> ('c, 'pa, 'e) checker \<Rightarrow> ('c, 'pa, 'g) rrg_planner \<Rightarrow>
     py_error + (bool \<times> ('c, 'pa, 'g) rrg_planner)" where
  "solve rb ck pl = solve_loop rb ck [1..maxIterations pl] pl"

text \<open>
  \<open>iterate_n n\<close> calls \<open>iterate\<close> \<open>n\<close> times in a row, whatever flag each call returns;
  \<open>false_run k\<close> is the planner after the first \<open>k\<close> iterations of \<open>solve\<close> when each of them
  returned false, and \<open>None\<close> when one of them raised or returned true.
\<close>

fun iterate_n ::
  "('c, 'o, 'g) robot \<Rightarrow> ('c, 'pa, 'e) checker \<Rightarrow> nat \<Rightarrow> ('c, 'pa, 'g) rrg_planner \<Rightarrow>
     py_error + ('c, 'pa, 'g) rrg_planner" where
  "iterate_n rb ck 0 pl = Inr pl"
| "iterate_n rb ck (Suc n) pl =
     (case iterate rb ck pl of
        Inl e \<Rightarrow> Inl e
      | Inr (found, pl') \<Rightarrow> iterate_n rb ck n pl')"

fun false_run ::
  "('c, 'o, 'g) robot \<Rightarrow> ('c, 'pa, 'e) checker \<Rightarrow> nat \<Rightarrow> ('c, 'pa, 'g) rrg_planner \<Rightarrow>
     ('c, 'pa, 'g) rrg_planner option" where
  "false_run rb ck 0 pl = Some pl"
| "false_run rb ck (Suc k) pl =
     (case false_run rb ck k pl of
        None \<Rightarrow> None
      | Some pl' \<Rightarrow>
          (case iterate rb ck (pl'\<lparr>iteration := int (Suc k)\<rparr>) of
             Inl e \<Rightarrow> None
           | Inr (found, pl'') \<Rightarrow> if found then None else Some pl''))"

text \<open>The dispersion of a TS: distinct vertices lie at least \<open>eta[0]\<close> apart.\<close>

definition dispersed :: "('c, 'o, 'g) robot \<Rightarrow> ('c, 'pa, 'g) rrg_planner \<Rightarrow> bool" where
  "dispersed rb pl =
     list_all (\<lambda>u. list_all (\<lambda>v. u = v \<or> fst (eta pl) \<le> cspace_dist rb u v) (ts_states (ts pl)))
       (ts_states (ts pl))"

section \<open>maps2d.py: boxes and balls\<close>

text \<open>
  \<open>BoxBoundary2D\<close>: \<open>ranges\<close> is the array \<open>[[x_low, x_high], [y_low, y_high]]\<close>.  The
  constructor (lines 70-78) asserts the shape \<open>(2, 2)\<close> and \<open>low <= high\<close> on both axes.
\<close>

record box =
  ranges :: "real list list"
  box_dimension :: nat

definition BoxBoundary2D_init :: "real list list \<Rightarrow> py_error + box" where
  "BoxBoundary2D_init rs =
     (if \<not> (length rs = 2 \<and> list_all (\<lambda>row. length row = 2) rs) then Inl AssertionError
      else if \<not> list_all (\<lambda>row. row ! 0 \<le> row ! 1) rs then Inl AssertionError
      else Inr \<lparr>ranges = rs, box_dimension = 2\<rparr>)"



text \<open>
  A \<open>Point2D\<close>, by its coordinates \<open>x\<close> and \<open>y\<close> (the properties of lines 49-57).  The class
  derives from \<open>Point\<close> (base.py, lines 41-105), a namedtuple \<open>(coords, hash)\<close> that defines
  equality, ordering by hash and \<open>__hash__\<close>, and no arithmetic.
\<close>

datatype point2d = Point2D (point_x: real) (point_y: real)

text \<open>
  \<open>BoxBoundary2D.intersects(src, dest=None)\<close> (lines 90-151) on points of the class
  \<open>Point2D\<close>.  A given \<open>dest\<close> is truthy (line 128: its \<open>__len__\<close> is \<open>2\<close>), and line 129,
  \<open>diff = dest - src\<close>, subtracts two namedtuples: neither \<open>Point\<close> nor \<open>tuple\<close> defines
  \<open>__sub__\<close>, so the statement raises \<open>TypeError\<close> and lines 130-148 are not reached.  With
  \<open>dest = None\<close> the test is point containment (lines 150-151), which only compares
  coordinates with the bounds.
\<close>

definition BoxBoundary2D_intersects :: "box \<Rightarrow> point2d \<Rightarrow> point2d option \<Rightarrow> py_error + bool" where
  "BoxBoundary2D_intersects b src dest_opt =
     (case dest_opt of
        Some dest \<Rightarrow> Inl TypeError
      | None \<Rightarrow>
          Inr (ranges b ! 0 ! 0 \<le> point_x src \<and> point_x src \<le> ranges b ! 0 ! 1 \<and>
               ranges b ! 1 ! 0 \<le> point_y src \<and> point_y src \<le> ranges b ! 1 ! 1))"


text \<open>
  What the docstring of \<open>intersects\<close> and the spec ask of the segment test: some point
  \<open>src + t (dest - src)\<close> with \<open>t\<close> in \<open>[0, 1]\<close> lies in the box.
\<close>

definition segment_meets_box :: "box \<Rightarrow> point2d \<Rightarrow> point2d \<Rightarrow> bool" where
  "segment_meets_box b src dest =
     (\<exists>t. 0 \<le> t \<and> t \<le> 1 \<and>
        BoxBoundary2D_intersects b
          (Point2D (point_x src + t * (point_x dest - point_x src))
                   (point_y src + t * (point_y dest - point_y src))) None = Inr True)"






section \<open>A small instance\<close>

text \<open>
  A robot on the real line with step size \<open>3/4\<close>, used to run the definitions on concrete
  inputs.  Positions from \<open>3\<close> on carry the symbol \<open>r1\<close>, positions up to \<open>-3\<close> the symbol
  \<open>o1\<close>; the local request \<open>fire\<close> sits at position \<open>2\<close>.  The sampler reads the
  configurations off a list.
\<close>

definition ex_robot :: "(real, unit, real list) robot" where
  "ex_robot =
     \<lparr>initConf = 0,
      sample = (\<lambda>g. case g of [] \<Rightarrow> (0, []) | x # xs \<Rightarrow> (x, xs)),
      steer = (\<lambda>s t atol. if \<bar>t - s\<bar> \<le> 3 / 4 then t else if s < t then s + 3 / 4 else s - 3 / 4),
      getSymbols = (\<lambda>c is_local.
         if is_local then (if c = 2 then {''fire''} else {})
         else if 3 \<le> c then {''r1''} else if c \<le> - 3 then {''o1''} else {}),
      isSimpleSegment = (\<lambda>a b. True),
      collision_free = (\<lambda>plan obs. True),
      collision_free_segment = (\<lambda>a b obs. True),
      cspace_dist = (\<lambda>a b. \<bar>a - b\<bar>)\<rparr>"

text \<open>
  A B\"uchi automaton over the states \<open>0, 1, ...\<close>: entering \<open>o1\<close> has no successor,
  entering \<open>r1\<close> advances the state, anything else keeps it.
\<close>

definition ex_buchi :: "(nat, string set) buchi" where
  "ex_buchi =
     \<lparr>next_states = (\<lambda>q p. if ''o1'' \<in> p then [] else if ''r1'' \<in> p then [Suc q] else [q])\<rparr>"

text \<open>
  A checker that accepts every candidate edge, counts the product edges it was given and
  reports a policy from four edges on.
\<close>

definition ex_checker :: "(real, nat, real \<times> real) checker" where
  "ex_checker =
     \<lparr>addInitialState = (\<lambda>pa c props. pa),
      foundPolicy = (\<lambda>pa. 4 \<le> pa),
      check = (\<lambda>pa t u v props forward. [(u, v)]),
      update = (\<lambda>pa E. pa + length E),
      edges_in_buchi = (\<lambda>pa. True)\<rparr>"

definition ex_planner :: "int \<Rightarrow> real list \<Rightarrow> (real, nat, real list) rrg_planner" where
  "ex_planner N samples = RRGPlanner_init ex_robot ex_checker 0 samples N"

text \<open>
  The planner of the instance after its first iteration on the sample \<open>2\<close> (the vertex
  \<open>3/4\<close> and two product edges are added), and after a second iteration on the sample \<open>-2\<close>.
\<close>

definition ex_state1 :: "int \<Rightarrow> int \<Rightarrow> real list \<Rightarrow> (real, nat, real list) rrg_planner" where
  "ex_state1 N i g =
     \<lparr>maxIterations = N, iteration = i,
      ts = \<lparr>g_nodes = [(0, {}), (3 / 4, {})], g_edges = [(0, 3 / 4), (3 / 4, 0)], ts_init = [0]\<rparr>,
      checker_state = 2, eta = (1 / 2, 1), rng = g\<rparr>"

definition ex_state2 :: "int \<Rightarrow> int \<Rightarrow> real list \<Rightarrow> (real, nat, real list) rrg_planner" where
  "ex_state2 N i g =
     \<lparr>maxIterations = N, iteration = i,
      ts = \<lparr>g_nodes = [(0, {}), (3 / 4, {}), (- (3 / 4), {})],
            g_edges = [(0, 3 / 4), (3 / 4, 0), (0, - (3 / 4)), (- (3 / 4), 0)], ts_init = [0]\<rparr>,
      checker_state = 4, eta = (1 / 2, 1), rng = g\<rparr>"

text \<open>
  A product automaton over the TS states \<open>0, 1, 2\<close> and the B\"uchi states \<open>0, 1\<close>.  The
  states \<open>(0, 0)\<close> and \<open>(1, 0)\<close> lie on the accepting cycle (potential \<open>0\<close>).
\<close>

definition ex_product :: "(real, nat) product" where
  "ex_product =
     \<lparr>proj_ts = [0 \<mapsto> [0, 1], 1 \<mapsto> [0], 2 \<mapsto> [0]],
      node_potential = [(0, 0) \<mapsto> 0, (0, 1) \<mapsto> 2, (1, 0) \<mapsto> 0, (2, 0) \<mapsto> 1],
      out_edges = (\<lambda>u. if u = (0, 0) then [(1, 0), (2, 0)]
                       else if u = (1, 0) then [(0, 0)]
                       else if u = (2, 0) then [(1, 0)] else [])\<rparr>"

text \<open>
  A local planner on the accepting cycle at the TS state \<open>0\<close>; a global TS with the states
  \<open>0, 1, 2\<close>; the requests \<open>survivor\<close> (priority \<open>0\<close>) and \<open>fire\<close> (priority \<open>1\<close>).
\<close>

definition ex_ts :: "real ts" where
  "ex_ts = \<lparr>g_nodes = [(0, {}), (1, {}), (2, {})], g_edges = [(0, 1), (0, 2), (1, 0), (2, 1)],
            ts_init = [0]\<rparr>"

definition survivor :: "string request" where
  "survivor = \<lparr>region = ''S2'', name = ''survivor'', priority = 0\<rparr>"

definition fire :: "string request" where
  "fire = \<lparr>region = ''F1'', name = ''fire'', priority = 1\<rparr>"

definition ex_local :: "(real, nat, string, unit) local_planner" where
  "ex_local =
     \<lparr>local_plan = Some [2, 1], tracking_req = Some survivor, requests = [fire], obstacles = (),
      buchi_states = [[0]], potential = [0], global_target_state = 1\<rparr>"

text \<open>The unit square, as the constructor returns it.\<close>

definition unit_box :: box where
  "unit_box = \<lparr>ranges = [[0, 1], [0, 1]], box_dimension = 2\<rparr>"

section \<open>Lemmas on the Python helpers\<close>

lemma set_py_set: "set (py_set xs) = set xs"
  by (simp add: py_set_def)

lemma distinct_py_set: "distinct (py_set xs)"
  by (simp add: py_set_def)

lemma set_py_set_union: "set (py_set_union s xs) = set s \<union> set xs"
  by (auto simp: py_set_union_def)

lemma distinct_py_set_union: "distinct s \<Longrightarrow> distinct (py_set_union s xs)"
  by (auto simp: py_set_union_def)

lemma set_py_set_inter: "set (py_set_inter s t) = set s \<inter> set t"
  by (auto simp: py_set_inter_def)

lemma py_min_from_mem: "py_min_from f best xs \<in> set (best # xs)"
  by (induction xs arbitrary: best) (auto split: if_splits)

lemma py_min_from_le: "x \<in> set (best # xs) \<Longrightarrow> f (py_min_from f best xs) \<le> f x"
proof (induction xs arbitrary: best x)
  case Nil
  then show ?case by simp
next
  case (Cons y ys)
  let ?b = "if f y < f best then y else best"
  have le_b: "f (py_min_from f ?b ys) \<le> f ?b"
    using Cons.IH [where best = ?b and x = ?b] by simp
  show ?case
  proof (cases "x \<in> set ys")
    case True
    then show ?thesis using Cons.IH [where best = ?b and x = x] by simp
  next
    case False
    with Cons.prems have "x = best \<or> x = y" by auto
    then have "f ?b \<le> f x" by auto
    with le_b show ?thesis by simp
  qed
qed

lemma py_min_from_Min: "f (py_min_from f best xs) = Min (f ` set (best # xs))"
proof (rule sym, rule Min_eqI)
  show "finite (f ` set (best # xs))" by simp
next
  fix y assume "y \<in> f ` set (best # xs)"
  then obtain x where "x \<in> set (best # xs)" "y = f x" by auto
  then show "f (py_min_from f best xs) \<le> y"
    using py_min_from_le [of x best xs f] by simp
next
  show "f (py_min_from f best xs) \<in> f ` set (best # xs)"
    using py_min_from_mem [of f best xs] by blast
qed

section \<open>The half-monitor\<close>

lemma set_monitor_loop:
  "set (monitor_loop buchi p start stop) =
     set stop \<union> (\<Union>q\<in>set start. set (next_states buchi q p))"
  by (induction start arbitrary: stop) (auto simp: set_py_set_union)

lemma distinct_monitor_loop:
  "distinct stop \<Longrightarrow> distinct (monitor_loop buchi p start stop)"
  by (induction start arbitrary: stop) (simp_all add: distinct_py_set_union)

lemma set_monitor:
  "set (monitor start buchi sp tp) =
     (if sp = tp then set start else (\<Union>q\<in>set start. set (next_states buchi q tp)))"
  by (simp add: monitor_def set_py_set set_monitor_loop)

lemma monitor_Nil: "monitor [] buchi sp tp = []"
  by (simp add: monitor_def py_set_def)

lemma monitor_path_Nil: "monitor_path [] buchi sp props = []"
  by (induction props arbitrary: sp) (simp_all add: monitor_Nil)

section \<open>The claims on the half-monitor\<close>

lemma extend_lts_monitor_empty:
  assumes "map_of (lts_nodes l) src = Some d"
    and "monitor (lts_buchi_states d) bu (global_prop d) (getSymbols rb dst False) = []"
  shows "extend_lts rb bu pl l src dst =
           Inr (l, if dst \<in> set (map fst (lts_nodes l)) then Some dst else None)"
  using assms by (simp add: extend_lts_def Let_def)

text \<open>
  C3.  The half-monitor returns a set equal to \<open>B_prev\<close> when the two propositions are
  equal, and otherwise the union over \<open>q\<close> in \<open>B_prev\<close> of \<open>next_states(q, sigma_next)\<close>; the
  result is a set (no duplicates).  An empty result discards the candidate segment: the
  tree extension of \<open>generate_local_plan\<close> leaves the local tree as it was.
\<close>

theorem monitor_half_monitor:
  "set (monitor B_prev buchi sigma_prev sigma_next) =
     (if sigma_prev = sigma_next then set B_prev
      else (\<Union>q\<in>set B_prev. set (next_states buchi q sigma_next)))
   \<and> distinct (monitor B_prev buchi sigma_prev sigma_next)
   \<and> (map_of (lts_nodes l) src = Some d \<and>
        monitor (lts_buchi_states d) bu (global_prop d) (getSymbols rb dst False) = []
      \<longrightarrow> extend_lts rb bu pl l src dst =
            Inr (l, if dst \<in> set (map fst (lts_nodes l)) then Some dst else None))"
proof (intro conjI impI)
  show "set (monitor B_prev buchi sigma_prev sigma_next) =
     (if sigma_prev = sigma_next then set B_prev
      else (\<Union>q\<in>set B_prev. set (next_states buchi q sigma_next)))"
    by (rule set_monitor)
next
  show "distinct (monitor B_prev buchi sigma_prev sigma_next)"
    by (simp add: monitor_def distinct_py_set distinct_monitor_loop)
next
  assume "map_of (lts_nodes l) src = Some d \<and>
        monitor (lts_buchi_states d) bu (global_prop d) (getSymbols rb dst False) = []"
  then show "extend_lts rb bu pl l src dst =
            Inr (l, if dst \<in> set (map fst (lts_nodes l)) then Some dst else None)"
    by (simp add: extend_lts_monitor_empty)
qed

text \<open>
  The instance: from the B\"uchi states \<open>{0, 1}\<close> at position \<open>-9/4\<close>, the step to \<open>-3\<close>
  enters \<open>o1\<close>, the monitor's set is empty and the tree keeps its single node.
\<close>

theorem monitor_half_monitor_witness:
  "set (monitor [0, 1] ex_buchi {} {''o1''}) = {}
   \<and> monitor [0, 1] ex_buchi {} {''r1''} = [1, 2]
   \<and> monitor [0, 1] ex_buchi {''r1''} {''r1''} = [0, 1]
   \<and> extend_lts ex_robot ex_buchi
        \<lparr>local_plan = None, tracking_req = None, requests = [], obstacles = (),
         buchi_states = [[0, 1]], potential = [0], global_target_state = 0\<rparr>
        \<lparr>lts_nodes = [(- 9 / 4, \<lparr>global_prop = {}, lts_buchi_states = [0, 1], hit = False\<rparr>)],
         lts_edges = []\<rparr>
        (- 9 / 4) (- 3)
      = Inr (\<lparr>lts_nodes = [(- 9 / 4, \<lparr>global_prop = {}, lts_buchi_states = [0, 1], hit = False\<rparr>)],
              lts_edges = []\<rparr>, None)"
proof -
  let ?pl = "\<lparr>local_plan = None, tracking_req = None, requests = [], obstacles = (),
         buchi_states = [[0::nat, 1]], potential = [0], global_target_state = 0::real\<rparr>"
  let ?d = "\<lparr>global_prop = {}, lts_buchi_states = [0::nat, 1], hit = False\<rparr>"
  let ?l = "\<lparr>lts_nodes = [(- 9 / 4 :: real, ?d)], lts_edges = []\<rparr>"
  have sym: "getSymbols ex_robot (- 3) False = {''o1''}"
    by (simp add: ex_robot_def)
  have empty: "monitor (lts_buchi_states ?d) ex_buchi (global_prop ?d) (getSymbols ex_robot (- 3) False) = []"
    by (simp add: sym monitor_def ex_buchi_def py_set_union_def)
  have node: "map_of (lts_nodes ?l) (- 9 / 4) = Some ?d"
    by simp
  note inst = monitor_half_monitor [THEN conjunct2, THEN conjunct2, rule_format, OF conjI,
      OF node empty, of ?pl]
  have a: "set (monitor [0, 1] ex_buchi {} {''o1''}) = {}"
    using monitor_half_monitor [THEN conjunct1, of "[0, 1]" ex_buchi "{}" "{''o1''}"]
    by (simp add: ex_buchi_def)
  have b: "monitor [0, 1] ex_buchi {} {''r1''} = [1, 2]"
    by (simp add: monitor_def ex_buchi_def py_set_union_def)
  have c: "monitor [0, 1] ex_buchi {''r1''} {''r1''} = [0, 1]"
    by (simp add: monitor_def py_set_def)
  have d: "extend_lts ex_robot ex_buchi ?pl ?l (- 9 / 4) (- 3) = Inr (?l, None)"
    using inst by simp
  from a b c d show ?thesis by blast
qed

text \<open>
  C10.  For distinct propositions the half-monitor is a union homomorphism in its start
  set: a start set that is the union of \<open>B1\<close> and \<open>B2\<close> gives the union of the two results.
  The empty start set gives the empty set for every pair of propositions, the monitor is
  monotone in its start set, and an empty B\"uchi set stays empty along every sequence of
  propositions.
\<close>

theorem monitor_union_homomorphism:
  assumes "sigma_prev \<noteq> sigma_next" and "set B = set B1 \<union> set B2"
  shows "set (monitor B buchi sigma_prev sigma_next) =
           set (monitor B1 buchi sigma_prev sigma_next) \<union> set (monitor B2 buchi sigma_prev sigma_next)
         \<and> monitor [] buchi sp tp = []
         \<and> set (monitor B1 buchi sp tp) \<subseteq> set (monitor B buchi sp tp)
         \<and> monitor_path [] buchi sp props = []"
proof (intro conjI)
  show "set (monitor B buchi sigma_prev sigma_next) =
           set (monitor B1 buchi sigma_prev sigma_next) \<union> set (monitor B2 buchi sigma_prev sigma_next)"
    using assms by (simp add: set_monitor UN_Un)
next
  show "monitor [] buchi sp tp = []" by (rule monitor_Nil)
next
  have "set B1 \<subseteq> set B" using assms(2) by simp
  then show "set (monitor B1 buchi sp tp) \<subseteq> set (monitor B buchi sp tp)"
    by (auto simp: set_monitor)
next
  show "monitor_path [] buchi sp props = []" by (rule monitor_path_Nil)
qed

theorem monitor_union_homomorphism_witness:
  "set (monitor [0, 1, 5] ex_buchi {} {''r1''}) =
     set (monitor [0, 1] ex_buchi {} {''r1''}) \<union> set (monitor [5, 1] ex_buchi {} {''r1''})
   \<and> set (monitor [0, 1, 5] ex_buchi {} {''r1''}) = {1, 2, 6}
   \<and> monitor_path [] ex_buchi {} [{''r1''}, {}, {''o1''}] = []"
proof -
  have ne: "({} :: string set) \<noteq> {''r1''}" by simp
  have un: "set [0::nat, 1, 5] = set [0, 1] \<union> set [5, 1]" by auto
  have val: "set (monitor [0, 1, 5] ex_buchi {} {''r1''}) = {1, 2, 6}"
    by (auto simp add: set_monitor ex_buchi_def)
  from monitor_union_homomorphism [OF ne un, of ex_buchi "{}" "{}" "[{''r1''}, {}, {''o1''}]"] val
  show ?thesis by blast
qed

section \<open>The claim on potentials\<close>

lemma py_min_lookup_Inr:
  assumes "xs \<noteq> []" and "\<forall>y\<in>set xs. m y \<noteq> None"
  shows "\<exists>x\<in>set xs. py_min_lookup m xs = Inr x \<and> the (m x) = Min ((\<lambda>y. the (m y)) ` set xs)"
proof -
  from assms(1) obtain x rest where xs: "xs = x # rest" by (cases xs) auto
  let ?f = "\<lambda>y. the (m y)"
  have all: "list_all (\<lambda>y. m y \<noteq> None) xs"
    using assms(2) by (simp add: list_all_iff)
  have res: "py_min_lookup m xs = Inr (py_min_from ?f x rest)"
    using all by (simp add: py_min_lookup_def xs)
  have mem: "py_min_from ?f x rest \<in> set xs"
    using py_min_from_mem [of ?f x rest] by (simp add: xs)
  have "?f (py_min_from ?f x rest) = Min (?f ` set xs)"
    using py_min_from_Min [of ?f x rest] by (simp add: xs)
  with res mem show ?thesis by blast
qed

text \<open>
  C9.  For a TS node \<open>x\<close> that the product knows (\<open>proj_ts\<close> has the key \<open>x\<close>) and whose product
  states among \<open>B\<close> carry a potential, \<open>get_actual_potential\<close> returns a value and never
  raises: infinity when \<open>proj_ts[x]\<close> and \<open>B\<close> are disjoint, and otherwise the least stored
  potential over the states \<open>(x, q)\<close> with \<open>q\<close> in both.
\<close>

theorem get_actual_potential_min:
  assumes "proj_ts pa x = Some qs"
    and "\<forall>q\<in>set qs \<inter> set B. node_potential pa (x, q) \<noteq> None"
  shows "get_actual_potential x B pa =
           Inr (if set qs \<inter> set B = {} then \<infinity>
                else Min ((\<lambda>q. the (node_potential pa (x, q))) ` (set qs \<inter> set B)))"
proof (cases "set qs \<inter> set B = {}")
  case True
  then have "py_set_inter qs B = []"
    using set_py_set_inter [of qs B] by simp
  with True assms(1) show ?thesis
    by (simp add: get_actual_potential_def)
next
  case False
  let ?xs = "map (Pair x) (py_set_inter qs B)"
  have set_xs: "set ?xs = Pair x ` (set qs \<inter> set B)"
    by (simp add: set_py_set_inter)
  have ne: "?xs \<noteq> []"
    using False set_py_set_inter [of qs B] by auto
  have stored: "\<forall>y\<in>set ?xs. node_potential pa y \<noteq> None"
    using assms(2) unfolding set_xs by blast
  from py_min_lookup_Inr [OF ne stored] obtain s where
    s: "s \<in> set ?xs" "py_min_lookup (node_potential pa) ?xs = Inr s"
       "the (node_potential pa s) = Min ((\<lambda>y. the (node_potential pa y)) ` set ?xs)"
    by blast
  from s(1) stored obtain p where p: "node_potential pa s = Some p" by auto
  have img: "(\<lambda>y. the (node_potential pa y)) ` set ?xs =
               (\<lambda>q. the (node_potential pa (x, q))) ` (set qs \<inter> set B)"
    unfolding set_xs by (simp add: image_image)
  have "get_actual_potential x B pa = Inr p"
    using assms(1) ne s(2) p by (simp add: get_actual_potential_def Let_def)
  moreover have "p = Min ((\<lambda>q. the (node_potential pa (x, q))) ` (set qs \<inter> set B))"
    using s(3) p img by simp
  ultimately show ?thesis using False by simp
qed

theorem get_actual_potential_min_witness:
  "get_actual_potential 0 [1, 0, 7] ex_product = Inr 0
   \<and> get_actual_potential 0 [1, 7] ex_product = Inr 2
   \<and> get_actual_potential 0 [7] ex_product = Inr \<infinity>"
proof -
  have pr: "proj_ts ex_product 0 = Some [0, 1]"
    by (simp add: ex_product_def)
  have a: "\<forall>q\<in>set [0, 1] \<inter> set [1, 0, 7]. node_potential ex_product (0, q) \<noteq> None"
    by (simp add: ex_product_def)
  have b: "\<forall>q\<in>set [0, 1] \<inter> set [1, 7]. node_potential ex_product (0, q) \<noteq> None"
    by (simp add: ex_product_def)
  have c: "\<forall>q\<in>set [0, 1] \<inter> set [7]. node_potential ex_product (0, q) \<noteq> None"
    by (simp add: ex_product_def)
  have ia: "set [0::nat, 1] \<inter> set [1, 0, 7] = {0, 1}" by auto
  have ib: "set [0::nat, 1] \<inter> set [1, 7] = {1}" by auto
  have ic: "set [0::nat, 1] \<inter> set [7] = {}" by auto
  have ra: "get_actual_potential 0 [1, 0, 7] ex_product = Inr 0"
    using get_actual_potential_min [OF pr a] unfolding ia by (simp add: ex_product_def)
  have rb: "get_actual_potential 0 [1, 7] ex_product = Inr 2"
    using get_actual_potential_min [OF pr b] unfolding ib by (simp add: ex_product_def)
  have rc: "get_actual_potential 0 [7] ex_product = Inr \<infinity>"
    using get_actual_potential_min [OF pr c] unfolding ic by simp
  from ra rb rc show ?thesis by blast
qed

section \<open>The local planner's target selection\<close>

text \<open>
  C5.  What the code does where the claim asks for the next-best successor: when the last
  recorded potential is \<open>0\<close> and the minimum-potential successor also has potential \<open>0\<close>,
  \<open>min_potential_global_state\<close> raises \<open>AttributeError\<close> (line 225 calls \<open>remove\<close> on a
  tuple) and returns no successor.
\<close>

theorem min_potential_zero_raises:
  assumes "buchi_states pl \<noteq> []" and "potential pl \<noteq> []" and "last (potential pl) = 0"
    and "pa_next_states =
           map snd (concat (map (\<lambda>u. map (Pair u) (out_edges pa u))
                              (map (Pair state) (last (buchi_states pl)))))"
    and "pa_next_states \<noteq> []"
    and "\<forall>y\<in>set pa_next_states. node_potential pa y \<noteq> None"
    and "Min ((\<lambda>y. the (node_potential pa y)) ` set pa_next_states) = 0"
  shows "min_potential_global_state pa pl state = Inl AttributeError"
proof -
  from assms(1) obtain b bs where bs: "buchi_states pl = b # bs" by (cases "buchi_states pl") auto
  from assms(2) obtain p ps where ps: "potential pl = p # ps" by (cases "potential pl") auto
  let ?out = "concat (map (\<lambda>u. map (Pair u) (out_edges pa u)) (map (Pair state) (last (b # bs))))"
  have nx: "pa_next_states = map snd ?out"
    using assms(4) bs by simp
  have out_ne: "?out \<noteq> []"
    using assms(5) nx by auto
  from py_min_lookup_Inr [OF assms(5) assms(6)] obtain opt where
    opt: "opt \<in> set pa_next_states" "py_min_lookup (node_potential pa) pa_next_states = Inr opt"
         "the (node_potential pa opt) = Min ((\<lambda>y. the (node_potential pa y)) ` set pa_next_states)"
    by blast
  from opt(1) assms(6) obtain v where v: "node_potential pa opt = Some v" by auto
  with opt(3) assms(7) have zero: "node_potential pa opt = Some 0" by simp
  have last0: "last (p # ps) = 0"
    using assms(3) ps by simp
  have look: "py_min_lookup (node_potential pa) (map snd ?out) = Inr opt"
    using opt(2) nx by simp
  show ?thesis
    unfolding min_potential_global_state_def bs ps
    using out_ne look zero last0 by (simp add: Let_def del: last.simps)
qed

text \<open>
  The failing input: at the TS state \<open>0\<close> with B\"uchi set \<open>{0}\<close> and potential \<open>0\<close>, the
  successors are \<open>(1, 0)\<close> of potential \<open>0\<close> and \<open>(2, 0)\<close> of potential \<open>1\<close>.  The claim asks
  for the TS state \<open>2\<close>; the code raises.  From the TS state \<open>2\<close> (potential \<open>1\<close>) the best
  successor is returned.
\<close>

theorem min_potential_zero_raises_witness:
  "min_potential_global_state ex_product ex_local 0 = Inl AttributeError
   \<and> min_potential_global_state ex_product (ex_local\<lparr>potential := [0, 1]\<rparr>) 2 = Inr 1"
proof -
  have nx: "[(1, 0), (2, 0)] =
      map snd (concat (map (\<lambda>u. map (Pair u) (out_edges ex_product u))
                         (map (Pair (0::real)) (last (buchi_states ex_local)))))"
    by (simp add: ex_product_def ex_local_def)
  have stored: "\<forall>y\<in>set [(1::real, 0::nat), (2, 0)]. node_potential ex_product y \<noteq> None"
    by (simp add: ex_product_def)
  have least: "Min ((\<lambda>y. the (node_potential ex_product y)) ` set [(1::real, 0::nat), (2, 0)]) = 0"
    by (simp add: ex_product_def)
  have a: "min_potential_global_state ex_product ex_local 0 = Inl AttributeError"
    by (rule min_potential_zero_raises [OF _ _ _ nx _ stored least])
       (simp_all add: ex_local_def)
  have b: "min_potential_global_state ex_product (ex_local\<lparr>potential := [0, 1]\<rparr>) 2 = Inr 1"
    by (simp add: min_potential_global_state_def ex_local_def ex_product_def py_min_lookup_def)
  from a b show ?thesis by blast
qed

text \<open>
  C6.  The code at the failing input: the tracked request \<open>survivor\<close> (priority \<open>0\<close>) is no
  longer among the supplied requests, which hold \<open>fire\<close> (priority \<open>1\<close>) only, and the
  pending plan visits position \<open>2\<close>, where \<open>fire\<close> is sensed.  \<open>check_local_plan\<close> keeps
  \<open>survivor\<close> as \<open>tracking_req\<close> and returns false.
\<close>

theorem check_local_plan_keeps_stale_request:
  "check_local_plan ex_robot ex_ts ex_local = Inr (False, ex_local)
   \<and> tracking_req ex_local = Some survivor
   \<and> survivor \<notin> set (requests ex_local)
   \<and> list_ex (\<lambda>conf. name fire \<in> getSymbols ex_robot conf True) [2, 1]"
  by (simp add: check_local_plan_def local_plan_hit_def ex_local_def ex_ts_def ex_robot_def
      survivor_def fire_def ts_has_def ts_states_def)

section \<open>The global planner once a policy is found\<close>

lemma iterate_found: "foundPolicy ck (checker_state pl) \<Longrightarrow> iterate rb ck pl = Inr (True, pl)"
  by (simp add: iterate_def)

text \<open>
  C7.  Once the checker reports \<open>foundPolicy\<close>, \<open>iterate\<close> returns true and the planner it
  leaves is the planner it was given: the transition system and the product automaton
  are unchanged, after one call and after any number of calls.
\<close>

theorem iterate_frozen:
  assumes "foundPolicy ck (checker_state pl)"
  shows "(\<exists>pl'. iterate rb ck pl = Inr (True, pl') \<and> ts pl' = ts pl
            \<and> checker_state pl' = checker_state pl)
         \<and> iterate_n rb ck n pl = Inr pl"
proof
  show "\<exists>pl'. iterate rb ck pl = Inr (True, pl') \<and> ts pl' = ts pl
            \<and> checker_state pl' = checker_state pl"
    using assms by (simp add: iterate_found)
next
  show "iterate_n rb ck n pl = Inr pl"
    using assms by (induction n) (simp_all add: iterate_found)
qed

theorem iterate_frozen_witness:
  "iterate ex_robot ex_checker ((ex_planner 5 [2])\<lparr>checker_state := 4\<rparr>)
     = Inr (True, (ex_planner 5 [2])\<lparr>checker_state := 4\<rparr>)
   \<and> iterate_n ex_robot ex_checker 3 ((ex_planner 5 [2])\<lparr>checker_state := 4\<rparr>)
     = Inr ((ex_planner 5 [2])\<lparr>checker_state := 4\<rparr>)"
proof -
  let ?pl = "(ex_planner 5 [2])\<lparr>checker_state := 4\<rparr>"
  have found: "foundPolicy ex_checker (checker_state ?pl)"
    by (simp add: ex_checker_def)
  from iterate_frozen [OF found, of ex_robot 3]
  obtain pl' where it: "iterate ex_robot ex_checker ?pl = Inr (True, pl')"
    and n: "iterate_n ex_robot ex_checker 3 ?pl = Inr ?pl"
    by blast
  have "iterate ex_robot ex_checker ?pl = Inr (True, ?pl)"
    using found by (simp add: iterate_def)
  with n show ?thesis by blast
qed

section \<open>Boxes and balls\<close>

text \<open>
  C2.  The code at the failing input, on the unit square.  The segment from \<open>(3, 1/2)\<close> to
  \<open>(-1, 1/2)\<close> crosses the square (at \<open>t = 5/8\<close> it is at \<open>(1/2, 1/2)\<close>), so the claim asks
  for the answer true.  \<open>intersects\<close> returns no answer: it raises \<open>TypeError\<close>, as it does
  for every segment between two points of the class \<open>Point2D\<close>.
\<close>

theorem box_intersects_raises:
  "BoxBoundary2D_init [[0, 1], [0, 1]] = Inr unit_box
   \<and> segment_meets_box unit_box (Point2D 3 (1 / 2)) (Point2D (- 1) (1 / 2))
   \<and> BoxBoundary2D_intersects unit_box (Point2D 3 (1 / 2)) (Some (Point2D (- 1) (1 / 2)))
       = Inl TypeError
   \<and> BoxBoundary2D_intersects b src (Some dest) = Inl TypeError"
proof (intro conjI)
  show "BoxBoundary2D_init [[0, 1], [0, 1]] = Inr unit_box"
    by (simp add: BoxBoundary2D_init_def unit_box_def)
next
  have "BoxBoundary2D_intersects unit_box
          (Point2D (point_x (Point2D 3 (1 / 2))
                      + 5 / 8 * (point_x (Point2D (- 1) (1 / 2)) - point_x (Point2D 3 (1 / 2))))
                   (point_y (Point2D 3 (1 / 2))
                      + 5 / 8 * (point_y (Point2D (- 1) (1 / 2)) - point_y (Point2D 3 (1 / 2)))))
          None = Inr True"
    by (simp add: BoxBoundary2D_intersects_def unit_box_def)
  then show "segment_meets_box unit_box (Point2D 3 (1 / 2)) (Point2D (- 1) (1 / 2))"
    unfolding segment_meets_box_def
    by (intro exI [of _ "5 / 8"] conjI) simp_all
next
  show "BoxBoundary2D_intersects unit_box (Point2D 3 (1 / 2)) (Some (Point2D (- 1) (1 / 2)))
          = Inl TypeError"
    by (simp add: BoxBoundary2D_intersects_def)
next
  show "BoxBoundary2D_intersects b src (Some dest) = Inl TypeError"
    by (simp add: BoxBoundary2D_intersects_def)
qed




section \<open>The transition system under the global planner\<close>

lemma map_fst_replace:
  "map fst (map (\<lambda>(c, p). if c = key then (c, props) else (c, p)) xs) = map fst xs"
  by (induction xs) auto

lemma ts_states_addState:
  "ts_states (addState t key props i) =
     (if key \<in> set (ts_states t) then ts_states t else ts_states t @ [key])"
  by (auto simp add: addState_def ts_states_def ts_has_def Let_def split: prod.splits)

lemma set_ts_states_addStates:
  "set (ts_states (addStates t Q)) = set (ts_states t) \<union> fst ` set Q"
  by (induction t Q rule: addStates.induct) (auto simp: ts_states_addState)

lemma ts_states_addTransitions: "ts_states (addTransitions t D) = ts_states t"
  by (simp add: addTransitions_def ts_states_def)

lemma g_nodes_addTransitions: "g_nodes (addTransitions t D) = g_nodes t"
  by (simp add: addTransitions_def)

lemma map_of_ts_state: "s \<in> set (ts_states t) \<Longrightarrow> map_of (g_nodes t) s \<noteq> None"
  by (simp add: ts_states_def map_of_eq_None_iff)

lemma forward_loop_Q:
  "forward_loop rb ck pl c p states (Q, D, E) = (Q', D', E') \<Longrightarrow>
     fst ` set Q' \<subseteq> insert c (fst ` set Q) \<and> (states = [] \<longrightarrow> Q' = Q)"
proof (induction states arbitrary: Q D E)
  case Nil
  then show ?case by auto
next
  case (Cons s states)
  show ?case
  proof (cases "isSimpleSegment rb s c \<and> check ck (checker_state pl) (ts pl) s c p True \<noteq> []")
    case True
    let ?Q = "if c \<in> set (map fst Q) then Q else Q @ [(c, p)]"
    from True Cons.prems
    have "forward_loop rb ck pl c p states
            (?Q, py_set_union D [(s, c)],
             py_set_union E (check ck (checker_state pl) (ts pl) s c p True)) = (Q', D', E')"
      by (simp add: Let_def)
    from Cons.IH [OF this] have "fst ` set Q' \<subseteq> insert c (fst ` set ?Q)" by simp
    then show ?thesis by (auto split: if_splits)
  next
    case False
    with Cons.prems have "forward_loop rb ck pl c p states (Q, D, E) = (Q', D', E')"
      by (auto simp: Let_def split: if_splits)
    from Cons.IH [OF this] show ?thesis by simp
  qed
qed

lemma far_subset: "set (far rb pl p) \<subseteq> set (ts_states (ts pl))"
  by (auto simp: far_def Let_def)

lemma near_subset: "set (near rb pl p) \<subseteq> set (ts_states (ts pl))"
  by (auto simp: near_def)

lemma far_close_empty:
  assumes "v \<in> set (ts_states (ts pl))"
    and "cspace_dist rb v p < snd (eta pl)" and "cspace_dist rb v p \<le> fst (eta pl)"
  shows "far rb pl p = []"
  using assms by (auto simp: far_def Let_def list_ex_iff)

lemma far_nonempty_spaced:
  assumes "far rb pl p \<noteq> []" and "v \<in> set (ts_states (ts pl))"
  shows "fst (eta pl) < cspace_dist rb v p"
proof -
  let ?ret = "filter (\<lambda>v. cspace_dist rb v p < snd (eta pl)) (ts_states (ts pl))"
  from assms(1) have no_close: "\<not> list_ex (\<lambda>v. cspace_dist rb v p \<le> fst (eta pl)) ?ret"
    and ne: "?ret \<noteq> []"
    by (auto simp: far_def Let_def split: if_splits)
  from ne obtain w where w: "w \<in> set ?ret" by (cases ?ret) auto
  with no_close have w_lo: "fst (eta pl) < cspace_dist rb w p"
    by (auto simp: list_ex_iff)
  from w have w_hi: "cspace_dist rb w p < snd (eta pl)" by simp
  show ?thesis
  proof (cases "cspace_dist rb v p < snd (eta pl)")
    case True
    with assms(2) have "v \<in> set ?ret" by simp
    with no_close show ?thesis by (auto simp: list_ex_iff)
  next
    case False
    with w_lo w_hi show ?thesis by simp
  qed
qed

lemma backward_inner_Inr:
  "\<forall>s\<in>set states. map_of (g_nodes (ts pl)) s \<noteq> None \<Longrightarrow>
     \<exists>acc'. backward_inner rb ck pl c states acc = Inr acc'"
proof (induction states arbitrary: acc)
  case Nil
  then show ?case by simp
next
  case (Cons s states)
  obtain D E where acc: "acc = (D, E)" by (cases acc)
  from Cons.prems obtain props where props: "map_of (g_nodes (ts pl)) s = Some props" by auto
  from Cons.prems have rest: "\<forall>s\<in>set states. map_of (g_nodes (ts pl)) s \<noteq> None" by simp
  let ?Ep = "check ck (checker_state pl) (ts pl) c s props False"
  let ?take = "s = steer rb c s (Some (1 / 10 ^ 8)) \<and> isSimpleSegment rb c s \<and> ?Ep \<noteq> []"
  have step: "backward_inner rb ck pl c (s # states) (D, E) =
      backward_inner rb ck pl c states
        (if ?take then (py_set_union D [(c, s)], py_set_union E ?Ep) else (D, E))"
    using props by (simp add: Let_def)
  from Cons.IH [OF rest] obtain acc' where
    "backward_inner rb ck pl c states
        (if ?take then (py_set_union D [(c, s)], py_set_union E ?Ep) else (D, E)) = Inr acc'"
    by blast
  with step acc show ?case by simp
qed

lemma backward_loop_Inr:
  "\<exists>acc'. backward_loop rb ck pl cs acc = Inr acc'"
proof (induction cs arbitrary: acc)
  case Nil
  then show ?case by simp
next
  case (Cons c cs)
  have "\<forall>s\<in>set (near rb pl c). map_of (g_nodes (ts pl)) s \<noteq> None"
  proof
    fix s assume "s \<in> set (near rb pl c)"
    with near_subset [of rb pl c] have "s \<in> set (ts_states (ts pl))" by (rule subsetD)
    then show "map_of (g_nodes (ts pl)) s \<noteq> None" by (rule map_of_ts_state)
  qed
  from backward_inner_Inr [OF this] obtain acc' where
    inner: "backward_inner rb ck pl c (near rb pl c) acc = Inr acc'" by blast
  from Cons.IH [of acc'] obtain acc'' where "backward_loop rb ck pl cs acc' = Inr acc''" by blast
  with inner show ?case by simp
qed

text \<open>What one call of \<open>iterate\<close> that returns can have done.\<close>

lemma iterate_step:
  assumes "iterate rb ck pl = Inr (b, pl')"
  shows "eta pl' = eta pl \<and> maxIterations pl' = maxIterations pl \<and> iteration pl' = iteration pl
         \<and> b = foundPolicy ck (checker_state pl')
         \<and> (set (ts_states (ts pl')) = set (ts_states (ts pl))
            \<or> (\<exists>c. far rb pl c \<noteq> [] \<and> set (ts_states (ts pl')) = insert c (set (ts_states (ts pl)))))"
proof (cases "foundPolicy ck (checker_state pl)")
  case True
  with assms show ?thesis by (simp add: iterate_def)
next
  case False
  obtain randomConf g' where smp: "sample rb (rng pl) = (randomConf, g')"
    by (cases "sample rb (rng pl)")
  from assms False smp obtain nearestState where nst: "nearest rb pl randomConf = Inr nearestState"
    by (cases "nearest rb pl randomConf") (simp_all add: iterate_def)
  define newConf where "newConf = steer rb nearestState randomConf None"
  define newProp where "newProp = getSymbols rb newConf False"
  obtain Q Delta E where fwd:
    "forward_loop rb ck pl newConf newProp (far rb pl newConf) ([], [], []) = (Q, Delta, E)"
    by (cases "forward_loop rb ck pl newConf newProp (far rb pl newConf) ([], [], [])")
  define pl1 where "pl1 = pl\<lparr>ts := addTransitions (addStates (ts pl) Q) Delta,
                          checker_state := update ck (checker_state pl) E,
                          rng := g'\<rparr>"
  from backward_loop_Inr [of rb ck pl1 "map fst Q" "([], [])"] obtain Delta2 E2 where
    bwd: "backward_loop rb ck pl1 (map fst Q) ([], []) = Inr (Delta2, E2)"
    by (metis surj_pair)
  define pl2 where "pl2 = pl1\<lparr>ts := addTransitions (ts pl1) Delta2,
                                   checker_state := update ck (checker_state pl1) E2\<rparr>"
  have it: "iterate rb ck pl =
      (if \<not> edges_in_buchi ck (checker_state pl2) then Inl AssertionError
       else Inr (foundPolicy ck (checker_state pl2), pl2))"
    using False smp nst fwd bwd
    by (simp add: iterate_def Let_def newConf_def newProp_def pl1_def pl2_def)
  with assms have res: "b = foundPolicy ck (checker_state pl2)" "pl' = pl2"
    by (auto split: if_splits)
  have states: "set (ts_states (ts pl2)) = set (ts_states (ts pl)) \<union> fst ` set Q"
    by (simp add: pl2_def pl1_def ts_states_addTransitions set_ts_states_addStates)
  from forward_loop_Q [OF fwd] have Q: "fst ` set Q \<subseteq> {newConf}"
    and Qe: "far rb pl newConf = [] \<longrightarrow> Q = []" by auto
  have fields: "eta pl2 = eta pl" "maxIterations pl2 = maxIterations pl" "iteration pl2 = iteration pl"
    by (simp_all add: pl2_def pl1_def)
  show ?thesis
  proof (cases "Q = []")
    case True
    with states fields res show ?thesis by simp
  next
    case False
    with Q have "fst ` set Q = {newConf}" by (cases Q) auto
    moreover from False Qe have "far rb pl newConf \<noteq> []" by blast
    ultimately show ?thesis using states fields res by auto
  qed
qed

lemma iterate_total:
  assumes "\<And>pa. edges_in_buchi ck pa" and "ts_states (ts pl) \<noteq> []"
  shows "\<exists>b pl'. iterate rb ck pl = Inr (b, pl')"
proof (cases "foundPolicy ck (checker_state pl)")
  case True
  then have "iterate rb ck pl = Inr (True, pl)" by (simp add: iterate_def)
  then show ?thesis by blast
next
  case False
  obtain randomConf g' where smp: "sample rb (rng pl) = (randomConf, g')"
    by (cases "sample rb (rng pl)")
  from assms(2) obtain nearestState where nst: "nearest rb pl randomConf = Inr nearestState"
    by (cases "ts_states (ts pl)") (simp_all add: nearest_def py_min_def)
  define newConf where "newConf = steer rb nearestState randomConf None"
  define newProp where "newProp = getSymbols rb newConf False"
  obtain Q Delta E where fwd:
    "forward_loop rb ck pl newConf newProp (far rb pl newConf) ([], [], []) = (Q, Delta, E)"
    by (cases "forward_loop rb ck pl newConf newProp (far rb pl newConf) ([], [], [])")
  define pl1 where "pl1 = pl\<lparr>ts := addTransitions (addStates (ts pl) Q) Delta,
                          checker_state := update ck (checker_state pl) E,
                          rng := g'\<rparr>"
  from backward_loop_Inr [of rb ck pl1 "map fst Q" "([], [])"] obtain Delta2 E2 where
    bwd: "backward_loop rb ck pl1 (map fst Q) ([], []) = Inr (Delta2, E2)"
    by (metis surj_pair)
  show ?thesis
    using False smp nst fwd bwd assms(1)
    by (simp add: iterate_def Let_def newConf_def newProp_def pl1_def)
qed

lemma iterate_nonempty:
  assumes "iterate rb ck pl = Inr (b, pl')" and "ts_states (ts pl) \<noteq> []"
  shows "ts_states (ts pl') \<noteq> []"
proof -
  from assms(2) have "set (ts_states (ts pl)) \<noteq> {}" by simp
  with iterate_step [OF assms(1)] have "set (ts_states (ts pl')) \<noteq> {}" by auto
  then show ?thesis by auto
qed

section \<open>Dispersion\<close>

lemma dispersed_iff:
  "dispersed rb pl \<longleftrightarrow>
     (\<forall>u\<in>set (ts_states (ts pl)). \<forall>v\<in>set (ts_states (ts pl)).
        u \<noteq> v \<longrightarrow> fst (eta pl) \<le> cspace_dist rb u v)"
  by (auto simp: dispersed_def list_all_iff)

lemma dispersed_init: "dispersed rb (RRGPlanner_init rb ck pa0 g0 N)"
  by (simp add: dispersed_iff RRGPlanner_init_def Let_def ts_states_addState)
     (simp add: ts_states_def)

lemma dispersed_iterate:
  assumes sym: "\<And>u v. cspace_dist rb u v = cspace_dist rb v u"
    and disp: "dispersed rb pl" and it: "iterate rb ck pl = Inr (b, pl')"
  shows "dispersed rb pl'"
proof -
  from iterate_step [OF it] have e: "eta pl' = eta pl"
    and cases: "set (ts_states (ts pl')) = set (ts_states (ts pl))
            \<or> (\<exists>c. far rb pl c \<noteq> [] \<and> set (ts_states (ts pl')) = insert c (set (ts_states (ts pl))))"
    by auto
  from cases show ?thesis
  proof
    assume "set (ts_states (ts pl')) = set (ts_states (ts pl))"
    with disp e show ?thesis by (simp add: dispersed_iff)
  next
    assume "\<exists>c. far rb pl c \<noteq> [] \<and> set (ts_states (ts pl')) = insert c (set (ts_states (ts pl)))"
    then obtain c where far: "far rb pl c \<noteq> []"
      and st: "set (ts_states (ts pl')) = insert c (set (ts_states (ts pl)))" by blast
    have new: "fst (eta pl) \<le> cspace_dist rb v c \<and> fst (eta pl) \<le> cspace_dist rb c v"
      if "v \<in> set (ts_states (ts pl))" for v
      using far_nonempty_spaced [OF far that] sym [of c v] by simp
    show ?thesis
      unfolding dispersed_iff st e
      using disp new by (auto simp: dispersed_iff)
  qed
qed

lemma dispersed_iterate_n:
  assumes sym: "\<And>u v. cspace_dist rb u v = cspace_dist rb v u"
  shows "dispersed rb pl \<Longrightarrow> iterate_n rb ck n pl = Inr pl' \<Longrightarrow> dispersed rb pl'"
proof (induction n arbitrary: pl)
  case 0
  then show ?case by simp
next
  case (Suc n)
  from Suc.prems(2) obtain b pl1 where it: "iterate rb ck pl = Inr (b, pl1)"
    and rest: "iterate_n rb ck n pl1 = Inr pl'"
    by (auto split: sum.splits)
  from dispersed_iterate [OF sym Suc.prems(1) it] Suc.IH rest show ?case by blast
qed

lemma dispersed_iteration: "dispersed rb (pl\<lparr>iteration := i\<rparr>) = dispersed rb pl"
  by (simp add: dispersed_def)

lemma dispersed_solve_loop:
  assumes sym: "\<And>u v. cspace_dist rb u v = cspace_dist rb v u"
  shows "dispersed rb pl \<Longrightarrow> solve_loop rb ck is pl = Inr (b, pl') \<Longrightarrow> dispersed rb pl'"
proof (induction "is" arbitrary: pl)
  case Nil
  then show ?case by simp
next
  case (Cons i rest)
  from Cons.prems(2) obtain f pl1 where it: "iterate rb ck (pl\<lparr>iteration := i\<rparr>) = Inr (f, pl1)"
    by (auto split: sum.splits)
  have d1: "dispersed rb pl1"
    using dispersed_iterate [OF sym _ it] Cons.prems(1) by (simp add: dispersed_iteration)
  show ?case
  proof (cases f)
    case True
    with it Cons.prems(2) have "pl' = pl1" by simp
    with d1 show ?thesis by simp
  next
    case False
    with it Cons.prems(2) have "solve_loop rb ck rest pl1 = Inr (b, pl')" by simp
    from Cons.IH [OF d1 this] show ?thesis .
  qed
qed

text \<open>
  C1.  With a symmetric distance, the constructor's TS is dispersed, and every completed
  iteration keeps it so: after any number of calls of \<open>iterate\<close>, and after \<open>solve\<close>, all
  pairs of distinct vertices lie at least \<open>eta[0]\<close> apart.  The far test returns the empty
  list whenever a vertex within \<open>eta[1]\<close> of the configuration lies at distance at most
  \<open>eta[0]\<close>, and an iteration adds a vertex only where the far test was non-empty.
\<close>

theorem rrg_dispersion:
  assumes "\<And>u v. cspace_dist rb u v = cspace_dist rb v u"
  shows "dispersed rb (RRGPlanner_init rb ck pa0 g0 N)
         \<and> (dispersed rb pl \<and> iterate_n rb ck n pl = Inr pl' \<longrightarrow>
              (\<forall>u\<in>set (ts_states (ts pl')). \<forall>v\<in>set (ts_states (ts pl')).
                 u \<noteq> v \<longrightarrow> fst (eta pl') \<le> cspace_dist rb u v))
         \<and> (dispersed rb pl \<and> solve rb ck pl = Inr (b, pl') \<longrightarrow>
              (\<forall>u\<in>set (ts_states (ts pl')). \<forall>v\<in>set (ts_states (ts pl')).
                 u \<noteq> v \<longrightarrow> fst (eta pl') \<le> cspace_dist rb u v))
         \<and> (v \<in> set (ts_states (ts pl)) \<and> cspace_dist rb v p < snd (eta pl)
              \<and> cspace_dist rb v p \<le> fst (eta pl) \<longrightarrow> far rb pl p = [])
         \<and> (iterate rb ck pl = Inr (b, pl') \<and> c \<in> set (ts_states (ts pl'))
              \<and> c \<notin> set (ts_states (ts pl)) \<longrightarrow> far rb pl c \<noteq> [])"
proof (intro conjI impI)
  show "dispersed rb (RRGPlanner_init rb ck pa0 g0 N)" by (rule dispersed_init)
next
  assume "dispersed rb pl \<and> iterate_n rb ck n pl = Inr pl'"
  then have d: "dispersed rb pl" and r: "iterate_n rb ck n pl = Inr pl'" by simp_all
  have "dispersed rb pl'" by (rule dispersed_iterate_n [OF assms d r])
  then show "\<forall>u\<in>set (ts_states (ts pl')). \<forall>v\<in>set (ts_states (ts pl')).
                 u \<noteq> v \<longrightarrow> fst (eta pl') \<le> cspace_dist rb u v"
    by (simp add: dispersed_iff)
next
  assume "dispersed rb pl \<and> solve rb ck pl = Inr (b, pl')"
  then have d: "dispersed rb pl"
    and r: "solve_loop rb ck [1..maxIterations pl] pl = Inr (b, pl')"
    by (simp_all add: solve_def)
  have "dispersed rb pl'" by (rule dispersed_solve_loop [OF assms d r])
  then show "\<forall>u\<in>set (ts_states (ts pl')). \<forall>v\<in>set (ts_states (ts pl')).
                 u \<noteq> v \<longrightarrow> fst (eta pl') \<le> cspace_dist rb u v"
    by (simp add: dispersed_iff)
next
  assume "v \<in> set (ts_states (ts pl)) \<and> cspace_dist rb v p < snd (eta pl)
              \<and> cspace_dist rb v p \<le> fst (eta pl)"
  then show "far rb pl p = []" using far_close_empty [of v pl rb p] by simp
next
  assume a: "iterate rb ck pl = Inr (b, pl') \<and> c \<in> set (ts_states (ts pl'))
              \<and> c \<notin> set (ts_states (ts pl))"
  then have it: "iterate rb ck pl = Inr (b, pl')" and c_new: "c \<in> set (ts_states (ts pl'))"
    and c_old: "c \<notin> set (ts_states (ts pl))" by simp_all
  from iterate_step [OF it]
  have "set (ts_states (ts pl')) = set (ts_states (ts pl))
        \<or> (\<exists>d. far rb pl d \<noteq> [] \<and> set (ts_states (ts pl')) = insert d (set (ts_states (ts pl))))"
    by simp
  then show "far rb pl c \<noteq> []"
  proof
    assume "set (ts_states (ts pl')) = set (ts_states (ts pl))"
    with c_new c_old show ?thesis by simp
  next
    assume "\<exists>d. far rb pl d \<noteq> [] \<and> set (ts_states (ts pl')) = insert d (set (ts_states (ts pl)))"
    then obtain d where d: "far rb pl d \<noteq> []"
      "set (ts_states (ts pl')) = insert d (set (ts_states (ts pl)))" by blast
    with c_new c_old have "c = d" by simp
    with d(1) show ?thesis by simp
  qed
qed

section \<open>The loop of solve\<close>

lemma false_run_Suc_Some:
  "false_run rb ck (Suc k) pl = Some pl2 \<longleftrightarrow>
     (\<exists>pl1. false_run rb ck k pl = Some pl1
        \<and> iterate rb ck (pl1\<lparr>iteration := int k + 1\<rparr>) = Inr (False, pl2))"
  by (auto simp: add.commute split: option.splits sum.splits)

lemma false_run_Suc_None:
  assumes "false_run rb ck k pl = Some pl1" and "false_run rb ck (Suc k) pl = None"
  shows "(\<exists>e. iterate rb ck (pl1\<lparr>iteration := int k + 1\<rparr>) = Inl e)
         \<or> (\<exists>pl2. iterate rb ck (pl1\<lparr>iteration := int k + 1\<rparr>) = Inr (True, pl2))"
  using assms by (auto simp: add.commute split: sum.splits if_splits)

lemma solve_loop_false_run:
  "false_run rb ck k pl = Some pl1 \<Longrightarrow> k \<le> nat N \<Longrightarrow>
     solve_loop rb ck [1..N] pl = solve_loop rb ck [int k + 1..N] pl1"
proof (induction k arbitrary: pl1)
  case 0
  then show ?case by simp
next
  case (Suc k)
  from Suc.prems(1) obtain pl0 where run: "false_run rb ck k pl = Some pl0"
    and it: "iterate rb ck (pl0\<lparr>iteration := int k + 1\<rparr>) = Inr (False, pl1)"
    unfolding false_run_Suc_Some by blast
  from Suc.prems(2) have le: "int k + 1 \<le> N" by linarith
  then have up: "[int k + 1..N] = (int k + 1) # [int k + 1 + 1..N]"
    by (rule upto_rec1)
  from Suc.prems(2) have "k \<le> nat N" by simp
  from Suc.IH [OF run this]
  have "solve_loop rb ck [1..N] pl = solve_loop rb ck [int k + 1..N] pl0" .
  also have "\<dots> = solve_loop rb ck [int k + 1 + 1..N] pl1"
    unfolding up using it by simp
  finally show ?case by (simp add: add.commute add.left_commute)
qed

lemma solve_progress:
  assumes "false_run rb ck k pl = Some pl1" and "k < nat N"
  shows "solve_loop rb ck [1..N] pl =
           (case iterate rb ck (pl1\<lparr>iteration := int k + 1\<rparr>) of
              Inl e \<Rightarrow> Inl e
            | Inr (found, pl2) \<Rightarrow>
                if found then Inr (True, pl2) else solve_loop rb ck [int k + 2..N] pl2)"
proof -
  from assms(2) have le: "int k + 1 \<le> N" by linarith
  have up: "[int k + 1..N] = (int k + 1) # [int k + 2..N]"
    using upto_rec1 [OF le] by (simp add: add.commute)
  from assms(2) have "k \<le> nat N" by simp
  from solve_loop_false_run [OF assms(1) this]
  have "solve_loop rb ck [1..N] pl = solve_loop rb ck [int k + 1..N] pl1" .
  then show ?thesis unfolding up by simp
qed

lemma solve_exhausted:
  assumes "false_run rb ck (nat N) pl = Some pl'"
  shows "solve_loop rb ck [1..N] pl = Inr (False, pl')"
proof -
  have "[int (nat N) + 1..N] = []" by simp
  with solve_loop_false_run [OF assms, of N] show ?thesis by simp
qed

lemma false_run_stops:
  "(\<exists>pl'. false_run rb ck n pl = Some pl')
   \<or> (\<exists>k pl1. k < n \<and> false_run rb ck k pl = Some pl1 \<and> false_run rb ck (Suc k) pl = None)"
proof (induction n)
  case 0
  then show ?case by simp
next
  case (Suc n)
  from Suc.IH show ?case
  proof
    assume "\<exists>pl'. false_run rb ck n pl = Some pl'"
    then obtain pl1 where run: "false_run rb ck n pl = Some pl1" by blast
    show ?thesis
    proof (cases "false_run rb ck (Suc n) pl")
      case None
      with run have "n < Suc n \<and> false_run rb ck n pl = Some pl1
                     \<and> false_run rb ck (Suc n) pl = None" by simp
      then show ?thesis by blast
    next
      case (Some pl2)
      then show ?thesis by blast
    qed
  next
    assume "\<exists>k pl1. k < n \<and> false_run rb ck k pl = Some pl1 \<and> false_run rb ck (Suc k) pl = None"
    then obtain k pl1 where "k < n" and run: "false_run rb ck k pl = Some pl1"
      and stop: "false_run rb ck (Suc k) pl = None" by blast
    from \<open>k < n\<close> have "k < Suc n" by simp
    with run stop show ?thesis by blast
  qed
qed

lemma false_run_nonempty:
  "false_run rb ck k pl = Some pl1 \<Longrightarrow> ts_states (ts pl) \<noteq> [] \<Longrightarrow> ts_states (ts pl1) \<noteq> []"
proof (induction k arbitrary: pl1)
  case 0
  then show ?case by simp
next
  case (Suc k)
  from Suc.prems(1) obtain pl0 where run: "false_run rb ck k pl = Some pl0"
    and it: "iterate rb ck (pl0\<lparr>iteration := int k + 1\<rparr>) = Inr (False, pl1)"
    unfolding false_run_Suc_Some by blast
  from Suc.IH [OF run Suc.prems(2)] have "ts_states (ts (pl0\<lparr>iteration := int k + 1\<rparr>)) \<noteq> []"
    by simp
  from iterate_nonempty [OF it this] show ?case .
qed

text \<open>The three ways in which \<open>solve\<close> ends.\<close>

lemma solve_cases:
  "(\<exists>pl'. false_run rb ck (nat (maxIterations pl)) pl = Some pl'
          \<and> solve rb ck pl = Inr (False, pl'))
   \<or> (\<exists>k pl1 pl'. k < nat (maxIterations pl) \<and> false_run rb ck k pl = Some pl1
          \<and> iterate rb ck (pl1\<lparr>iteration := int k + 1\<rparr>) = Inr (True, pl')
          \<and> solve rb ck pl = Inr (True, pl'))
   \<or> (\<exists>k pl1 e. k < nat (maxIterations pl) \<and> false_run rb ck k pl = Some pl1
          \<and> iterate rb ck (pl1\<lparr>iteration := int k + 1\<rparr>) = Inl e
          \<and> solve rb ck pl = Inl e)"
proof -
  let ?N = "maxIterations pl"
  from false_run_stops [of rb ck "nat ?N" pl]
  show ?thesis
  proof
    assume "\<exists>pl'. false_run rb ck (nat ?N) pl = Some pl'"
    then obtain pl' where run: "false_run rb ck (nat ?N) pl = Some pl'" by blast
    from solve_exhausted [OF run] have "solve rb ck pl = Inr (False, pl')"
      by (simp add: solve_def)
    with run show ?thesis by blast
  next
    assume "\<exists>k pl1. k < nat ?N \<and> false_run rb ck k pl = Some pl1
              \<and> false_run rb ck (Suc k) pl = None"
    then obtain k pl1 where k: "k < nat ?N" and run: "false_run rb ck k pl = Some pl1"
      and stop: "false_run rb ck (Suc k) pl = None" by blast
    note prog = solve_progress [OF run k]
    from false_run_Suc_None [OF run stop] show ?thesis
    proof
      assume "\<exists>e. iterate rb ck (pl1\<lparr>iteration := int k + 1\<rparr>) = Inl e"
      then obtain e where e: "iterate rb ck (pl1\<lparr>iteration := int k + 1\<rparr>) = Inl e" by blast
      with prog have "solve rb ck pl = Inl e" by (simp add: solve_def)
      with k run e show ?thesis by blast
    next
      assume "\<exists>pl2. iterate rb ck (pl1\<lparr>iteration := int k + 1\<rparr>) = Inr (True, pl2)"
      then obtain pl2 where t: "iterate rb ck (pl1\<lparr>iteration := int k + 1\<rparr>) = Inr (True, pl2)"
        by blast
      with prog have "solve rb ck pl = Inr (True, pl2)" by (simp add: solve_def)
      with k run t show ?thesis by blast
    qed
  qed
qed

lemma solve_False_iff:
  "solve rb ck pl = Inr (False, pl') \<longleftrightarrow>
     false_run rb ck (nat (maxIterations pl)) pl = Some pl'"
proof
  assume s: "solve rb ck pl = Inr (False, pl')"
  from solve_cases [of rb ck pl] s
  show "false_run rb ck (nat (maxIterations pl)) pl = Some pl'"
    by (elim disjE exE conjE) simp_all
next
  assume "false_run rb ck (nat (maxIterations pl)) pl = Some pl'"
  from solve_exhausted [OF this] show "solve rb ck pl = Inr (False, pl')"
    by (simp add: solve_def)
qed

lemma solve_True_iff:
  "solve rb ck pl = Inr (True, pl') \<longleftrightarrow>
     (\<exists>k pl1. k < nat (maxIterations pl) \<and> false_run rb ck k pl = Some pl1
        \<and> iterate rb ck (pl1\<lparr>iteration := int k + 1\<rparr>) = Inr (True, pl'))"
proof
  assume "solve rb ck pl = Inr (True, pl')"
  with solve_cases [of rb ck pl] show "\<exists>k pl1. k < nat (maxIterations pl)
        \<and> false_run rb ck k pl = Some pl1
        \<and> iterate rb ck (pl1\<lparr>iteration := int k + 1\<rparr>) = Inr (True, pl')"
    by (elim disjE exE conjE) auto
next
  assume "\<exists>k pl1. k < nat (maxIterations pl) \<and> false_run rb ck k pl = Some pl1
        \<and> iterate rb ck (pl1\<lparr>iteration := int k + 1\<rparr>) = Inr (True, pl')"
  then obtain k pl1 where k: "k < nat (maxIterations pl)"
    and run: "false_run rb ck k pl = Some pl1"
    and t: "iterate rb ck (pl1\<lparr>iteration := int k + 1\<rparr>) = Inr (True, pl')" by blast
  from solve_progress [OF run k] t show "solve rb ck pl = Inr (True, pl')"
    by (simp add: solve_def)
qed

lemma solve_no_exception:
  assumes "\<And>pa. edges_in_buchi ck pa" and "ts_states (ts pl) \<noteq> []"
  shows "\<exists>b pl'. solve rb ck pl = Inr (b, pl')"
proof -
  from solve_cases [of rb ck pl] consider
    (exhausted) pl' where "solve rb ck pl = Inr (False, pl')"
  | (found) pl' where "solve rb ck pl = Inr (True, pl')"
  | (raised) k pl1 e where "false_run rb ck k pl = Some pl1"
      "iterate rb ck (pl1\<lparr>iteration := int k + 1\<rparr>) = Inl e"
    by blast
  then show ?thesis
  proof cases
    case exhausted
    then show ?thesis by blast
  next
    case found
    then show ?thesis by blast
  next
    case raised
    from false_run_nonempty [OF raised(1) assms(2)]
    have "ts_states (ts (pl1\<lparr>iteration := int k + 1\<rparr>)) \<noteq> []" by simp
    from iterate_total [OF assms(1) this, of rb] raised(2) show ?thesis by simp
  qed
qed

text \<open>
  C4.  \<open>solve\<close> ends in one of two ways when no iteration raises.  It returns false exactly
  when each of the \<open>N = maxIterations\<close> iterations returned false, and then \<open>N\<close> iterations
  were run; it returns true exactly when, after \<open>k < N\<close> iterations that returned false,
  iteration \<open>k + 1\<close> returned true, and then no further iteration is run: the counter
  \<open>iteration\<close> ends between \<open>1\<close> and \<open>N\<close> and the checker reports \<open>foundPolicy\<close>.  With a
  checker whose product always passes the assertion of \<open>iterate\<close>, and a TS that holds a
  state (as the constructor leaves it), \<open>solve\<close> raises no exception.
\<close>

theorem solve_bounded:
  assumes "\<And>pa. edges_in_buchi ck pa" and "ts_states (ts pl) \<noteq> []"
  shows "(\<exists>b pl'. solve rb ck pl = Inr (b, pl'))
         \<and> (solve rb ck pl = Inr (False, pl') \<longleftrightarrow>
              false_run rb ck (nat (maxIterations pl)) pl = Some pl')
         \<and> (solve rb ck pl = Inr (True, pl') \<longleftrightarrow>
              (\<exists>k pl1. k < nat (maxIterations pl) \<and> false_run rb ck k pl = Some pl1
                 \<and> iterate rb ck (pl1\<lparr>iteration := int k + 1\<rparr>) = Inr (True, pl')))
         \<and> (solve rb ck pl = Inr (True, pl') \<longrightarrow>
              foundPolicy ck (checker_state pl') \<and> 1 \<le> iteration pl'
              \<and> iteration pl' \<le> maxIterations pl)
         \<and> (solve rb ck pl = Inr (False, pl') \<and> 1 \<le> maxIterations pl \<longrightarrow>
              \<not> foundPolicy ck (checker_state pl') \<and> iteration pl' = maxIterations pl)"
proof (intro conjI)
  show "\<exists>b pl'. solve rb ck pl = Inr (b, pl')"
    by (rule solve_no_exception [OF assms])
next
  show "solve rb ck pl = Inr (False, pl') \<longleftrightarrow>
          false_run rb ck (nat (maxIterations pl)) pl = Some pl'"
    by (rule solve_False_iff)
next
  show "solve rb ck pl = Inr (True, pl') \<longleftrightarrow>
          (\<exists>k pl1. k < nat (maxIterations pl) \<and> false_run rb ck k pl = Some pl1
             \<and> iterate rb ck (pl1\<lparr>iteration := int k + 1\<rparr>) = Inr (True, pl'))"
    by (rule solve_True_iff)
next
  show "solve rb ck pl = Inr (True, pl') \<longrightarrow>
          foundPolicy ck (checker_state pl') \<and> 1 \<le> iteration pl'
          \<and> iteration pl' \<le> maxIterations pl"
  proof
    assume "solve rb ck pl = Inr (True, pl')"
    then obtain k pl1 where k: "k < nat (maxIterations pl)"
      and t: "iterate rb ck (pl1\<lparr>iteration := int k + 1\<rparr>) = Inr (True, pl')"
      unfolding solve_True_iff by blast
    from iterate_step [OF t] have "foundPolicy ck (checker_state pl')"
      and "iteration pl' = int k + 1" by simp_all
    with k show "foundPolicy ck (checker_state pl') \<and> 1 \<le> iteration pl'
                \<and> iteration pl' \<le> maxIterations pl" by simp
  qed
next
  show "solve rb ck pl = Inr (False, pl') \<and> 1 \<le> maxIterations pl \<longrightarrow>
          \<not> foundPolicy ck (checker_state pl') \<and> iteration pl' = maxIterations pl"
  proof
    assume a: "solve rb ck pl = Inr (False, pl') \<and> 1 \<le> maxIterations pl"
    then have run: "false_run rb ck (nat (maxIterations pl)) pl = Some pl'"
      by (simp add: solve_False_iff)
    from a obtain k where k: "nat (maxIterations pl) = Suc k"
      by (cases "nat (maxIterations pl)") auto
    from run obtain pl1 where
      f: "iterate rb ck (pl1\<lparr>iteration := int k + 1\<rparr>) = Inr (False, pl')"
      unfolding k false_run_Suc_Some by blast
    from iterate_step [OF f] have "\<not> foundPolicy ck (checker_state pl')"
      and "iteration pl' = int k + 1" by simp_all
    moreover from k have "int k + 1 = maxIterations pl" by linarith
    ultimately show "\<not> foundPolicy ck (checker_state pl') \<and> iteration pl' = maxIterations pl"
      by simp
  qed
qed

section \<open>The instance under the global planner\<close>

lemma ex_iterate_first:
  "iterate ex_robot ex_checker ((ex_planner N (2 # g))\<lparr>iteration := i\<rparr>)
     = Inr (False, ex_state1 N i g)"
  by (simp add: iterate_def ex_planner_def RRGPlanner_init_def ex_robot_def ex_checker_def
      ex_state1_def nearest_def far_def near_def py_min_def addState_def addTransitions_def
      ts_states_def ts_has_def py_set_union_def Let_def)

lemma ex_iterate_second:
  "iterate ex_robot ex_checker ((ex_state1 N j (- 2 # g))\<lparr>iteration := i\<rparr>)
     = Inr (True, ex_state2 N i g)"
  by (simp add: iterate_def ex_robot_def ex_checker_def ex_state1_def ex_state2_def
      nearest_def far_def near_def py_min_def addState_def addTransitions_def
      ts_states_def ts_has_def py_set_union_def Let_def)

lemma ex_iterate_rejected:
  "iterate ex_robot ex_checker ((ex_state1 N j (1 / 4 # g))\<lparr>iteration := i\<rparr>)
     = Inr (False, ex_state1 N i g)"
  by (simp add: iterate_def ex_robot_def ex_checker_def ex_state1_def
      nearest_def far_def near_def py_min_def addState_def addTransitions_def
      ts_states_def ts_has_def py_set_union_def Let_def)

lemma ex_planner_iteration: "(ex_planner N g)\<lparr>iteration := 0\<rparr> = ex_planner N g"
  by (simp add: ex_planner_def RRGPlanner_init_def Let_def)

lemma ex_state1_iteration: "(ex_state1 N i g)\<lparr>iteration := i\<rparr> = ex_state1 N i g"
  by (simp add: ex_state1_def)

text \<open>
  The instance for C1: two iterations from the constructor's planner add the vertices
  \<open>3/4\<close> and \<open>-3/4\<close>; a third sample steered to \<open>1/4\<close> lies within \<open>eta[0]\<close> of the vertex
  \<open>0\<close> and is rejected by the far test.
\<close>

theorem rrg_dispersion_witness:
  "iterate_n ex_robot ex_checker 2 (ex_planner 5 [2, 1 / 4]) = Inr (ex_state1 5 0 [])
   \<and> dispersed ex_robot (ex_state1 5 0 [])
   \<and> ts_states (ts (ex_state1 5 0 [])) = [0, 3 / 4]
   \<and> far ex_robot (ex_state1 5 0 []) (1 / 4) = []
   \<and> far ex_robot (ex_planner 5 [2, 1 / 4]) (3 / 4) = [0]"
proof -
  have sym: "\<And>u v. cspace_dist ex_robot u v = cspace_dist ex_robot v u"
    by (simp add: ex_robot_def abs_minus_commute)
  note disp = rrg_dispersion [of ex_robot, OF sym]
  have init: "dispersed ex_robot (ex_planner 5 [2, 1 / 4])"
    unfolding ex_planner_def by (rule disp [THEN conjunct1])
  have run: "iterate_n ex_robot ex_checker 2 (ex_planner 5 [2, 1 / 4]) = Inr (ex_state1 5 0 [])"
    using ex_iterate_first [where N = 5 and g = "[1 / 4]" and i = 0]
      ex_iterate_rejected [where N = 5 and j = 0 and g = "[]" and i = 0]
    by (simp add: numeral_2_eq_2 ex_planner_iteration ex_state1_iteration)
  have spaced: "\<forall>u\<in>set (ts_states (ts (ex_state1 5 0 []))).
      \<forall>v\<in>set (ts_states (ts (ex_state1 5 0 []))).
        u \<noteq> v \<longrightarrow> fst (eta (ex_state1 5 0 [])) \<le> cspace_dist ex_robot u v"
    using disp [THEN conjunct2, THEN conjunct1, rule_format, OF conjI, OF init run] by blast
  then have d: "dispersed ex_robot (ex_state1 5 0 [])"
    by (simp add: dispersed_iff)
  have st: "ts_states (ts (ex_state1 5 0 [])) = [0, 3 / 4]"
    by (simp add: ex_state1_def ts_states_def)
  have close: "far ex_robot (ex_state1 5 0 []) (1 / 4) = []"
    by (rule disp [THEN conjunct2, THEN conjunct2, THEN conjunct2, THEN conjunct1, rule_format,
          where v = 0])
       (simp add: ex_state1_def ts_states_def ex_robot_def)
  have open_far: "far ex_robot (ex_planner 5 [2, 1 / 4]) (3 / 4) = [0]"
    by (simp add: far_def ex_planner_def RRGPlanner_init_def ex_robot_def addState_def
        ts_states_def ts_has_def Let_def)
  from run d st close open_far show ?thesis by blast
qed

text \<open>
  The instance for C4: with \<open>N = 1\<close> the single iteration returns false and \<open>solve\<close>
  returns false after it; with \<open>N = 2\<close> the second iteration finds the policy and \<open>solve\<close>
  returns true at iteration \<open>2\<close>; with \<open>N = 5\<close> it returns true at iteration \<open>2\<close> as well.
\<close>

theorem solve_bounded_witness:
  "solve ex_robot ex_checker (ex_planner 1 [2, - 2]) = Inr (False, ex_state1 1 1 [- 2])
   \<and> false_run ex_robot ex_checker 1 (ex_planner 1 [2, - 2]) = Some (ex_state1 1 1 [- 2])
   \<and> solve ex_robot ex_checker (ex_planner 2 [2, - 2]) = Inr (True, ex_state2 2 2 [])
   \<and> solve ex_robot ex_checker (ex_planner 5 [2, - 2]) = Inr (True, ex_state2 5 2 [])
   \<and> foundPolicy ex_checker (checker_state (ex_state2 5 2 []))"
proof -
  have ok: "\<And>pa. edges_in_buchi ex_checker pa"
    by (simp add: ex_checker_def)
  have ne: "\<And>N g. ts_states (ts (ex_planner N g)) \<noteq> []"
    by (simp add: ex_planner_def RRGPlanner_init_def addState_def ts_states_def ts_has_def Let_def)
  have n1: "maxIterations (ex_planner 1 [2, - 2]) = 1"
    and n2: "maxIterations (ex_planner 2 [2, - 2]) = 2"
    and n5: "maxIterations (ex_planner 5 [2, - 2]) = 5"
    by (simp_all add: ex_planner_def RRGPlanner_init_def Let_def)
  have run1: "\<And>N. false_run ex_robot ex_checker 1 (ex_planner N [2, - 2]) = Some (ex_state1 N 1 [- 2])"
    using ex_iterate_first [where g = "[- 2]" and i = 1] by simp
  have a: "solve ex_robot ex_checker (ex_planner 1 [2, - 2]) = Inr (False, ex_state1 1 1 [- 2])"
    using solve_bounded [OF ok ne [where N = 1 and g = "[2, - 2]"],
        where rb = ex_robot and pl' = "ex_state1 1 1 [- 2]",
        THEN conjunct2, THEN conjunct1] run1 [of 1]
    by (simp add: n1)
  have step2: "\<And>N. iterate ex_robot ex_checker ((ex_state1 N 1 [- 2])\<lparr>iteration := int 1 + 1\<rparr>)
                 = Inr (True, ex_state2 N 2 [])"
    using ex_iterate_second [where j = 1 and g = "[]" and i = 2] by simp
  have b: "solve ex_robot ex_checker (ex_planner 2 [2, - 2]) = Inr (True, ex_state2 2 2 [])"
  proof -
    have "\<exists>k pl1. k < nat (maxIterations (ex_planner 2 [2, - 2]))
        \<and> false_run ex_robot ex_checker k (ex_planner 2 [2, - 2]) = Some pl1
        \<and> iterate ex_robot ex_checker (pl1\<lparr>iteration := int k + 1\<rparr>) = Inr (True, ex_state2 2 2 [])"
      using run1 [of 2] step2 [of 2] n2
      by (intro exI [of _ 1] exI [of _ "ex_state1 2 1 [- 2]"]) simp
    with solve_bounded [OF ok ne [where N = 2 and g = "[2, - 2]"],
        where rb = ex_robot and pl' = "ex_state2 2 2 []",
        THEN conjunct2, THEN conjunct2, THEN conjunct1]
    show ?thesis by blast
  qed
  have c: "solve ex_robot ex_checker (ex_planner 5 [2, - 2]) = Inr (True, ex_state2 5 2 [])"
  proof -
    have "\<exists>k pl1. k < nat (maxIterations (ex_planner 5 [2, - 2]))
        \<and> false_run ex_robot ex_checker k (ex_planner 5 [2, - 2]) = Some pl1
        \<and> iterate ex_robot ex_checker (pl1\<lparr>iteration := int k + 1\<rparr>) = Inr (True, ex_state2 5 2 [])"
      using run1 [of 5] step2 [of 5] n5
      by (intro exI [of _ 1] exI [of _ "ex_state1 5 1 [- 2]"]) simp
    with solve_bounded [OF ok ne [where N = 5 and g = "[2, - 2]"],
        where rb = ex_robot and pl' = "ex_state2 5 2 []",
        THEN conjunct2, THEN conjunct2, THEN conjunct1]
    show ?thesis by blast
  qed
  have d: "foundPolicy ex_checker (checker_state (ex_state2 5 2 []))"
    using solve_bounded [OF ok ne [where N = 5 and g = "[2, - 2]"],
        where rb = ex_robot and pl' = "ex_state2 5 2 []",
        THEN conjunct2, THEN conjunct2, THEN conjunct2, THEN conjunct1] c
    by simp
  from a run1 [of 1] b c d show ?thesis by blast
qed

end
